theory Spec2Isabelle
  imports Main "HOL-Library.Word"
begin

section \<open>Motion control engine: \<^verbatim>\<open>src/ardufocus/stepper.cpp\<close>\<close>

subsection \<open>Build configuration\<close>

text \<open>
  The three acceleration profiles are alternatives of one preprocessor chain
  (\<^verbatim>\<open>config.h\<close> selects \<^verbatim>\<open>USE_TRAPEZOID_ACCEL\<close>, so \<^verbatim>\<open>HAS_ACCELERATION\<close> is on).
\<close>

datatype accel = USE_LINEAR_ACCEL | USE_TRAPEZOID_ACCEL | USE_SMOOTHSTEP_ACCEL

text \<open>
  \<^verbatim>\<open>stepper.h\<close>, \<^verbatim>\<open>util.h\<close> and the header that defines \<^verbatim>\<open>TIMER0_FREQ\<close> and the defaults of
  \<^verbatim>\<open>ACCEL_DURATION\<close> and \<^verbatim>\<open>ACCEL_MIN_STEPS\<close> are not among the source files, so these
  macros are parameters of the model. The floating point helpers of \<^verbatim>\<open>update_freq\<close> are
  parameters as well:
  \<^item> \<open>ramp lo hi s d\<close> stands for \<^verbatim>\<open>util::lerp(lo, hi, map(s, 0, d, 0.0, 1.0))\<close> as stored in
    \<^verbatim>\<open>m_set_speed\<close>;
  \<^item> \<open>smooth lo hi ein eout dist rel\<close> stands for \<^verbatim>\<open>util::lerp(lo, hi, f)\<close> with \<^verbatim>\<open>f\<close> the product
    of the two \<^verbatim>\<open>util::smootheststep\<close> factors.
\<close>

record config =
  TIMER0_FREQ :: nat
  ACCEL_DURATION :: nat
  ACCEL_MIN_STEPS :: nat
  profile :: accel
  ramp :: "16 word \<Rightarrow> 16 word \<Rightarrow> 32 word \<Rightarrow> 32 word \<Rightarrow> 16 word"
  smooth :: "16 word \<Rightarrow> 16 word \<Rightarrow> 32 word \<Rightarrow> 32 word \<Rightarrow> 32 word \<Rightarrow> 32 word \<Rightarrow> 16 word"

subsection \<open>The state of one axis\<close>

text \<open>
  Modelled from the spec: the class declaration (\<^verbatim>\<open>stepper.h\<close>) is not among the source
  files. The record holds the members that \<^verbatim>\<open>stepper.cpp\<close> uses, with \<^verbatim>\<open>m_position\<close> flattened.
  The widths of \<open>current\<close>, \<open>target\<close> (\<^verbatim>\<open>uint32_t\<close>) and \<open>m_speed\<close> (\<^verbatim>\<open>uint16_t\<close>) are those of
  the accessors in \<^verbatim>\<open>stepper.cpp\<close>; the profile fields are given the width of the positions
  they are computed from, the speeds and the overflow counter that of \<open>m_speed\<close>.

  \<open>counter\<close> is the function-static \<^verbatim>\<open>uint8_t\<close> of \<^verbatim>\<open>tick()\<close>. It is not a member: the program
  has one such variable, and the \<^verbatim>\<open>tick()\<close> of every stepper object reads and increments
  it (\<^verbatim>\<open>config.h\<close> configures two motors). The field holds the value the static has when
  \<^verbatim>\<open>tick()\<close> is entered for this axis; a run of ticks (\<open>ticks\<close> below) lets the other
  steppers advance it between two ticks of the axis.
\<close>

record stepper =
  moving :: bool
  current :: "32 word"
  target :: "32 word"
  relative :: "32 word"
  distance :: "32 word"
  easein :: "32 word"
  easeout :: "32 word"
  m_speed :: "16 word"
  m_set_speed :: "16 word"
  m_min_speed :: "16 word"
  m_max_speed :: "16 word"
  m_ovf_counter :: "16 word"
  m_invert_direction :: bool
  counter :: "8 word"

subsection \<open>Command API\<close>

definition init :: "stepper \<Rightarrow> stepper" where
  "init s = s\<lparr>m_speed := 2, m_ovf_counter := 0\<rparr>"

definition move :: "stepper \<Rightarrow> stepper" where
  "move s = s\<lparr>m_ovf_counter := 0, moving := True\<rparr>"

definition is_moving :: "stepper \<Rightarrow> bool" where
  "is_moving s = moving s"

definition halt :: "stepper \<Rightarrow> stepper" where
  "halt s = s\<lparr>target := current s, moving := False\<rparr>"

definition get_current_position :: "stepper \<Rightarrow> 32 word" where
  "get_current_position s = current s"

definition set_current_position :: "32 word \<Rightarrow> stepper \<Rightarrow> stepper" where
  "set_current_position t s = s\<lparr>current := t, target := t\<rparr>"

definition get_speed :: "stepper \<Rightarrow> 16 word" where
  "get_speed s = m_speed s"

definition set_speed :: "16 word \<Rightarrow> stepper \<Rightarrow> stepper" where
  "set_speed t s = s\<lparr>m_speed := t\<rparr>"

definition get_target_position :: "stepper \<Rightarrow> 32 word" where
  "get_target_position s = target s"

text \<open>
  \<^verbatim>\<open>set_target_position\<close>, lines 161-193. \<^verbatim>\<open>ACCEL_DURATION << 1\<close> is a constant expression of
  the macro and is computed on naturals; \<^verbatim>\<open>distance >> 1\<close> is \<open>drop_bit 1\<close>.
\<close>

definition set_target_position :: "config \<Rightarrow> 32 word \<Rightarrow> stepper \<Rightarrow> stepper" where
  "set_target_position cfg t s =
    (let s1 = s\<lparr>target := t\<rparr>;
         s2 = s1\<lparr>relative := 0\<rparr>;
         s3 = s2\<lparr>distance := (if current s2 > t then current s2 - t else t - current s2)\<rparr>
     in if ACCEL_MIN_STEPS cfg \<le> unat (distance s3) then
          (case profile cfg of
             USE_LINEAR_ACCEL \<Rightarrow>
               (let s4 = s3\<lparr>easein := drop_bit 1 (distance s3)\<rparr>
                in s4\<lparr>easeout := easein s4\<rparr>)
           | _ \<Rightarrow>
               if unat (distance s3) < 2 * ACCEL_DURATION cfg then
                 (let s4 = s3\<lparr>easein := drop_bit 1 (distance s3)\<rparr>
                  in s4\<lparr>easeout := easein s4\<rparr>)
               else
                 (let s4 = s3\<lparr>easein := of_nat (ACCEL_DURATION cfg)\<rparr>
                  in s4\<lparr>easeout := distance s4 - of_nat (ACCEL_DURATION cfg)\<rparr>))
        else s3)"

text \<open>
  \<^verbatim>\<open>update_freq\<close>, lines 255-278: the acceleration planner. The integer part (which ramp
  position is handed to the interpolation) is the source's; the interpolation itself is
  the parameter \<open>ramp\<close> or \<open>smooth\<close>.
\<close>

definition update_freq :: "config \<Rightarrow> stepper \<Rightarrow> stepper" where
  "update_freq cfg s =
    (if ACCEL_MIN_STEPS cfg \<le> unat (distance s) then
       s\<lparr>m_set_speed :=
          (case profile cfg of
             USE_LINEAR_ACCEL \<Rightarrow>
               ramp cfg (m_min_speed s) (m_max_speed s)
                 (if relative s \<le> easein s then relative s else distance s - relative s)
                 (easein s)
           | USE_TRAPEZOID_ACCEL \<Rightarrow>
               ramp cfg (m_min_speed s) (m_max_speed s)
                 (if relative s \<le> easein s then relative s
                  else if relative s \<ge> easeout s then distance s - relative s
                  else of_nat (ACCEL_DURATION cfg))
                 (of_nat (ACCEL_DURATION cfg))
           | USE_SMOOTHSTEP_ACCEL \<Rightarrow>
               smooth cfg (m_min_speed s) (m_max_speed s)
                 (easein s) (easeout s) (distance s) (relative s))\<rparr>
     else s\<lparr>m_set_speed := m_min_speed s\<rparr>)"

text \<open>
  \<^verbatim>\<open>update_position\<close>, lines 286-296. \<open>direction\<close> is an \<^verbatim>\<open>int8_t\<close>; adding it to the
  \<^verbatim>\<open>uint32_t\<close> position sign-extends it first (\<open>scast\<close>), so \<open>-1\<close> steps back modulo \<open>2^32\<close>.
\<close>

definition update_position :: "config \<Rightarrow> 8 word \<Rightarrow> stepper \<Rightarrow> stepper" where
  "update_position cfg direction s =
    (let s1 = s\<lparr>current := current s + scast direction\<rparr>;
         s2 = s1\<lparr>relative := relative s1 + 1\<rparr>
     in update_freq cfg s2)"

subsection \<open>The step scheduler\<close>

text \<open>
  The pulse emitter is the pair of virtual methods \<^verbatim>\<open>step_cw()\<close> and \<^verbatim>\<open>step_ccw()\<close> of the
  driver classes; a tick calls at most one of them. An \<open>emitter\<close> gives the answer each
  would return on this tick.
\<close>

record emitter =
  step_cw :: bool
  step_ccw :: bool

text \<open>
  Both gates divide: \<^verbatim>\<open>TIMER0_FREQ / (m_set_speed<<1)\<close> and \<^verbatim>\<open>counter % (m_speed>>1)\<close>. A zero
  divisor is undefined behaviour in the source and a fault of the model.
\<close>

datatype fault = DivisionByZero

text \<open>
  \<^verbatim>\<open>tick\<close>, lines 217-244. \<^verbatim>\<open>sleep()\<close> belongs to the driver and touches no member modelled
  here. The comparison of the first gate is computed on integers: the counter's value
  before the increment against \<^verbatim>\<open>TIMER0_FREQ / (m_set_speed<<1) - 1\<close>, truncating division.
  With the types of the operands declared in headers that are not among the source
  files, this is the value of the source's expression in every integer type of at least
  16 bits as long as \<^verbatim>\<open>TIMER0_FREQ\<close> is below \<open>2^16\<close> and the quotient is at least 1 (predicate
  \<open>in_range\<close> below); outside that range an unsigned subtraction would wrap.
  The second gate reads the static counter before its increment, which wraps at 256.
\<close>

definition tick :: "config \<Rightarrow> emitter \<Rightarrow> stepper \<Rightarrow> fault + stepper" where
  "tick cfg em s =
    (if \<not> moving s then Inr s
     else if m_set_speed s = 0 then Inl DivisionByZero
     else
       let ovf = m_ovf_counter s;
           s1 = s\<lparr>m_ovf_counter := ovf + 1\<rparr>
       in if uint ovf < int (TIMER0_FREQ cfg) div (2 * uint (m_set_speed s1)) - 1 then Inr s1
          else
            let s2 = s1\<lparr>m_ovf_counter := 0\<rparr>;
                c = counter s2;
                s3 = s2\<lparr>counter := c + 1\<rparr>
            in if drop_bit 1 (m_speed s3) = 0 then Inl DivisionByZero
               else if unat c mod unat (drop_bit 1 (m_speed s3)) \<noteq> 0 then Inr s3
               else if target s3 > current s3 then
                 (if (if m_invert_direction s3 then step_cw em else step_ccw em)
                  then Inr (update_position cfg 1 s3) else Inr s3)
               else if target s3 < current s3 then
                 (if (if m_invert_direction s3 then step_ccw em else step_cw em)
                  then Inr (update_position cfg (- 1) s3) else Inr s3)
               else Inr (halt s3))"

text \<open>
  Repeated ticks of one axis. The interrupt routine that calls \<^verbatim>\<open>tick()\<close> (\<^verbatim>\<open>isr.cpp\<close>) is not
  among the source files; what matters to an axis is what happens to the static counter
  between two of its ticks. The only statement that writes the static is \<^verbatim>\<open>counter++\<close> of
  \<^verbatim>\<open>tick()\<close>, so all that the other steppers can do is increment it, once for each of
  their ticks that passes the first gate. A \<open>slot\<close> is one tick of the axis: the answer of
  the emitter on that tick, and the number of increments by other steppers since the
  previous tick of the axis (\<open>foreign\<close>, added modulo 256). A fault ends the run.
\<close>

record slot =
  emits :: emitter
  foreign :: nat

fun ticks :: "config \<Rightarrow> slot list \<Rightarrow> stepper \<Rightarrow> fault + stepper" where
  "ticks cfg [] s = Inr s"
| "ticks cfg (sl # sls) s =
     (case tick cfg (emits sl) (s\<lparr>counter := counter s + of_nat (foreign sl)\<rparr>) of
        Inl e \<Rightarrow> Inl e
      | Inr s' \<Rightarrow> ticks cfg sls s')"

text \<open>An emitter that never refuses a pulse.\<close>

definition willing :: emitter where
  "willing = \<lparr>step_cw = True, step_ccw = True\<rparr>"

text \<open>
  A tick on which the emitter is willing and no other stepper has touched the static
  counter since the previous tick of the axis.
\<close>

definition alone :: slot where
  "alone = \<lparr>emits = willing, foreign = 0\<rparr>"

text \<open>
  The two gates in the words of the scheduler's description: the overflow counter has
  reached \<^verbatim>\<open>TIMER0_FREQ / (2 * set_speed) - 1\<close>, and the second counter is a multiple of
  half the speed divider (both read before the increment, both divisions truncating).
\<close>

definition gate1 :: "config \<Rightarrow> stepper \<Rightarrow> bool" where
  "gate1 cfg s \<longleftrightarrow>
     int (TIMER0_FREQ cfg) div (2 * uint (m_set_speed s)) - 1 \<le> uint (m_ovf_counter s)"

definition gate2 :: "stepper \<Rightarrow> bool" where
  "gate2 s \<longleftrightarrow> unat (counter s) mod (unat (m_speed s) div 2) = 0"

text \<open>
  A speed the first gate can work with in every integer type of at least 16 bits: not 0,
  and small enough for the quotient \<^verbatim>\<open>TIMER0_FREQ / (speed<<1)\<close> to be at least 1, with
  \<^verbatim>\<open>TIMER0_FREQ\<close> below \<open>2^16\<close>.
\<close>

definition in_range :: "config \<Rightarrow> 16 word \<Rightarrow> bool" where
  "in_range cfg v \<longleftrightarrow> v \<noteq> 0 \<and> 2 * unat v \<le> TIMER0_FREQ cfg \<and> TIMER0_FREQ cfg < 65536"

text \<open>The answer of the emitter method a tick calls in the state \<open>s\<close> (lines 233-240).\<close>

definition asked :: "emitter \<Rightarrow> stepper \<Rightarrow> bool" where
  "asked em s =
     (if target s > current s
      then (if m_invert_direction s then step_cw em else step_ccw em)
      else (if m_invert_direction s then step_ccw em else step_cw em))"

section \<open>Input arbitration: \<^verbatim>\<open>ui_reskeybd.cpp\<close>\<close>

text \<open>
  The source files hold two revisions of this translation unit:
  \<^verbatim>\<open>src/ardufocus/ui_reskeybd.cpp\<close> and \<^verbatim>\<open>src/unnamed/part_000\<close>. They share \<^verbatim>\<open>decode\<close>, \<^verbatim>\<open>debounce\<close>,
  \<^verbatim>\<open>setup\<close> and the \<^verbatim>\<open>switch\<close> over the decoded action; the interval tables and the rest of
  \<^verbatim>\<open>tick()\<close> differ. Names of the second revision carry the suffix \<open>_part_000\<close>.
\<close>

subsection \<open>Decoder\<close>

datatype action =
  NOTHING | SLOWEST_FWD | SLOWEST_BWD | SLOW_FWD | SLOW_BWD
  | FAST_FWD | FAST_BWD | ULTRA_FWD | ULTRA_BWD | MOTOR_SWITCH

text \<open>The enumerator values of \<^verbatim>\<open>ui_reskeybd.h\<close>, as stored in the \<^verbatim>\<open>unsigned int\<close> tables.\<close>

fun action_code :: "action \<Rightarrow> nat" where
  "action_code NOTHING = 0"
| "action_code SLOWEST_FWD = 1"
| "action_code SLOWEST_BWD = 2"
| "action_code SLOW_FWD = 3"
| "action_code SLOW_BWD = 4"
| "action_code FAST_FWD = 5"
| "action_code FAST_BWD = 6"
| "action_code ULTRA_FWD = 7"
| "action_code ULTRA_BWD = 8"
| "action_code MOTOR_SWITCH = 9"

text \<open>
  \<^verbatim>\<open>static_cast<ResKeybd::action>\<close>. The tables hold enumerator values only; a number that
  names no enumerator is treated like \<open>NOTHING\<close>, as the \<^verbatim>\<open>default\<close> branch of \<^verbatim>\<open>tick()\<close> does.
\<close>

definition static_cast_action :: "nat \<Rightarrow> action" where
  "static_cast_action n =
     (if n = 1 then SLOWEST_FWD else if n = 2 then SLOWEST_BWD
      else if n = 3 then SLOW_FWD else if n = 4 then SLOW_BWD
      else if n = 5 then FAST_FWD else if n = 6 then FAST_BWD
      else if n = 7 then ULTRA_FWD else if n = 8 then ULTRA_BWD
      else if n = 9 then MOTOR_SWITCH else NOTHING)"

definition button_values :: "nat list" where
  "button_values =
     [930, 990, action_code NOTHING,
      810, 870, action_code MOTOR_SWITCH,
      700, 760, action_code FAST_FWD,
      420, 470, action_code ULTRA_FWD,
      150, 210, action_code FAST_BWD,
       30,  90, action_code ULTRA_BWD,
      620, 680, action_code SLOWEST_FWD,
      330, 390, action_code SLOW_FWD,
      520, 580, action_code SLOWEST_BWD,
      250, 310, action_code SLOW_BWD]"

definition button_values_part_000 :: "nat list" where
  "button_values_part_000 =
     [900, 990, action_code NOTHING,
      800, 899, action_code MOTOR_SWITCH,
      690, 799, action_code FAST_FWD,
      400, 500, action_code ULTRA_FWD,
      111, 210, action_code FAST_BWD,
       30, 110, action_code ULTRA_BWD,
      600, 689, action_code SLOWEST_FWD,
      330, 399, action_code SLOW_FWD,
      501, 600, action_code SLOWEST_BWD,
      211, 350, action_code SLOW_BWD]"

text \<open>
  The loop of \<^verbatim>\<open>decode\<close>: it walks the flat array three entries at a time and returns at
  the first interval that holds the sample. The array length is a multiple of three, so
  the walk ends with nothing left over.
\<close>

fun decode_scan :: "nat list \<Rightarrow> 16 word \<Rightarrow> action" where
  "decode_scan (lo # hi # a # rest) v =
     (if lo \<le> unat v \<and> unat v \<le> hi then static_cast_action a else decode_scan rest v)"
| "decode_scan _ v = NOTHING"

definition decode :: "16 word \<Rightarrow> action" where
  "decode v = decode_scan button_values v"

definition decode_part_000 :: "16 word \<Rightarrow> action" where
  "decode_part_000 v = decode_scan button_values_part_000 v"

text \<open>
  The table as the ordered sequence of \<open>(low, high, action)\<close> triples it is read as, and
  membership of a sample in a triple's closed interval.
\<close>

fun triples :: "nat list \<Rightarrow> (nat \<times> nat \<times> action) list" where
  "triples (lo # hi # a # rest) = (lo, hi, static_cast_action a) # triples rest"
| "triples _ = []"

definition inside :: "nat \<times> nat \<times> action \<Rightarrow> 16 word \<Rightarrow> bool" where
  "inside e v \<longleftrightarrow> fst e \<le> unat v \<and> unat v \<le> fst (snd e)"

subsection \<open>Debounce filter\<close>

text \<open>
  \<^verbatim>\<open>debounce\<close> updates its reference parameters in place; the model returns them in the
  order of the parameter list: \<open>(current_state, previous_state, trigger_event, counter)\<close>.
  The call of \<^verbatim>\<open>setup()\<close> in it only initialises the pins once.
\<close>

definition debounce :: "bool \<Rightarrow> bool \<Rightarrow> 8 word \<Rightarrow> 8 word \<Rightarrow> bool \<times> bool \<times> bool \<times> 8 word" where
  "debounce current_state previous_state cnt threshold =
     (if current_state = previous_state then (current_state, previous_state, False, 0)
      else if cnt < threshold then (previous_state, previous_state, False, cnt + 1)
      else (current_state, current_state, True, 0))"

text \<open>
  One button's filter fed a sequence of raw samples: the \<open>(reported state, trigger)\<close> pair
  of every sample, and the filter's \<open>(previous_state, counter)\<close> at the end.
\<close>

fun feed :: "8 word \<Rightarrow> bool list \<Rightarrow> bool \<times> 8 word \<Rightarrow> (bool \<times> bool) list \<times> (bool \<times> 8 word)" where
  "feed threshold [] (prev, cnt) = ([], (prev, cnt))"
| "feed threshold (raw # raws) (prev, cnt) =
     (case debounce raw prev cnt threshold of
        (reported, prev', trig, cnt') \<Rightarrow>
          (case feed threshold raws (prev', cnt') of
             (outs, final) \<Rightarrow> ((reported, trig) # outs, final)))"

subsection \<open>The engine as the arbiter sees it\<close>

datatype motor_t = MOTOR_ONE | MOTOR_TWO

text \<open>The commands the arbiter can issue, as logged by the model in the order of the calls.\<close>

datatype api_call =
  Motor_set_speed motor_t "16 word"
  | Motor_set_target motor_t "32 word"
  | Motor_start motor_t
  | Motor_stop motor_t

record engine =
  axis :: "motor_t \<Rightarrow> stepper"
  issued :: "api_call list"

text \<open>
  Modelled from the spec: \<^verbatim>\<open>api.h\<close> with the functions \<^verbatim>\<open>api::motor_*\<close> is not among the
  source files. Following the command API surface of the specification, each forwards
  to the command of the addressed axis: \<^verbatim>\<open>motor_start\<close> to \<^verbatim>\<open>move()\<close>, \<^verbatim>\<open>motor_stop\<close> to
  \<^verbatim>\<open>halt()\<close>, \<^verbatim>\<open>motor_set_target\<close> to \<^verbatim>\<open>set_target_position\<close>, \<^verbatim>\<open>motor_set_speed\<close> and
  \<^verbatim>\<open>motor_get_speed\<close> to \<^verbatim>\<open>set_speed\<close> and \<^verbatim>\<open>get_speed\<close>, \<^verbatim>\<open>motor_is_moving\<close> to \<^verbatim>\<open>is_moving()\<close>.
\<close>

definition motor_get_speed :: "motor_t \<Rightarrow> engine \<Rightarrow> 16 word" where
  "motor_get_speed m e = get_speed (axis e m)"

definition motor_is_moving :: "motor_t \<Rightarrow> engine \<Rightarrow> bool" where
  "motor_is_moving m e = is_moving (axis e m)"

definition motor_set_speed :: "motor_t \<Rightarrow> 16 word \<Rightarrow> engine \<Rightarrow> engine" where
  "motor_set_speed m v e =
     e\<lparr>axis := (axis e)(m := set_speed v (axis e m)),
       issued := issued e @ [Motor_set_speed m v]\<rparr>"

definition motor_set_target :: "config \<Rightarrow> motor_t \<Rightarrow> 32 word \<Rightarrow> engine \<Rightarrow> engine" where
  "motor_set_target cfg m t e =
     e\<lparr>axis := (axis e)(m := set_target_position cfg t (axis e m)),
       issued := issued e @ [Motor_set_target m t]\<rparr>"

definition motor_start :: "motor_t \<Rightarrow> engine \<Rightarrow> engine" where
  "motor_start m e =
     e\<lparr>axis := (axis e)(m := move (axis e m)), issued := issued e @ [Motor_start m]\<rparr>"

definition motor_stop :: "motor_t \<Rightarrow> engine \<Rightarrow> engine" where
  "motor_stop m e =
     e\<lparr>axis := (axis e)(m := halt (axis e m)), issued := issued e @ [Motor_stop m]\<rparr>"

text \<open>The calls one poll cycle adds to the log.\<close>

definition calls_since :: "engine \<Rightarrow> engine \<Rightarrow> api_call list" where
  "calls_since e e' = drop (length (issued e)) (issued e')"

subsection \<open>Constants and state of the arbiter\<close>

text \<open>The speed profile of \<^verbatim>\<open>config.h\<close>, lines 163-167.\<close>

definition MOTOR1_MAX_SPEED :: nat where "MOTOR1_MAX_SPEED = 500"
definition MOTOR1_MIN_SPEED :: nat where "MOTOR1_MIN_SPEED = 25"
definition MOTOR2_MAX_SPEED :: nat where "MOTOR2_MAX_SPEED = 500"
definition MOTOR2_MIN_SPEED :: nat where "MOTOR2_MIN_SPEED = 25"

text \<open>
  \<^verbatim>\<open>UI_KAP_BUTTON_DEBOUNCE\<close> and \<^verbatim>\<open>map\<close> are defined in headers that are not among the source
  files and are parameters: \<open>speed_map x\<close> stands for
  \<^verbatim>\<open>map(x, MOTOR1_MIN_SPEED, MOTOR1_MAX_SPEED, 2, 64)\<close> as handed to \<^verbatim>\<open>api::motor_set_speed\<close>.
\<close>

record kconfig =
  UI_KAP_BUTTON_DEBOUNCE :: "8 word"
  speed_map :: "32 word \<Rightarrow> 16 word"
  motion :: config

text \<open>
  The statics of \<^verbatim>\<open>ResKeybd\<close>: the class members \<open>motor\<close> and \<open>inited\<close>, the function-statics
  of \<^verbatim>\<open>tick()\<close> (the arrays \<^verbatim>\<open>counter[3]\<close> and \<^verbatim>\<open>previous_state[3]\<close>, one field per element, and
  \<open>old_motor_speed\<close>), and the levels last written to the three feedback pins
  (\<open>True\<close> is \<^verbatim>\<open>HIGH\<close>).
\<close>

record reskeybd =
  motor :: motor_t
  inited :: bool
  counter_0 :: "8 word"
  counter_1 :: "8 word"
  counter_2 :: "8 word"
  previous_state_0 :: bool
  previous_state_1 :: bool
  previous_state_2 :: bool
  old_motor_speed :: "32 word"
  fwd_led :: bool
  bwd_led :: bool
  motor_led :: bool

text \<open>The local variables of \<^verbatim>\<open>tick()\<close>.\<close>

record locals =
  fwd_state :: bool
  bwd_state :: bool
  switch_state :: bool
  new_motor_speed :: "32 word"
  act :: action
  fwd_trigger :: bool
  bwd_trigger :: bool
  switch_trigger :: bool

text \<open>
  What one poll reads from outside: the analog sample, and (first revision only) whether
  each feedback pin reads \<^verbatim>\<open>LOW\<close>.
\<close>

record sample =
  adc :: "16 word"
  fwd_led_low :: bool
  bwd_led_low :: bool

definition ResKeybd_setup :: "reskeybd \<Rightarrow> reskeybd" where
  "ResKeybd_setup k =
     (if inited k then k
      else k\<lparr>inited := True, fwd_led := False, bwd_led := False, motor_led := False\<rparr>)"

text \<open>
  The \<^verbatim>\<open>switch (act)\<close> of \<^verbatim>\<open>tick()\<close>, the same text in both revisions (the \<^verbatim>\<open>default\<close> branch
  is unreachable for the ten enumerators).
\<close>

fun button_action :: "motor_t \<Rightarrow> action \<Rightarrow> locals \<Rightarrow> locals" where
  "button_action m NOTHING l = l"
| "button_action m SLOWEST_FWD l =
     l\<lparr>new_motor_speed :=
          of_nat (if m = MOTOR_ONE then MOTOR1_MIN_SPEED else MOTOR2_MIN_SPEED),
       fwd_state := True\<rparr>"
| "button_action m SLOW_FWD l =
     l\<lparr>new_motor_speed :=
          of_nat (if m = MOTOR_ONE
                  then MOTOR1_MIN_SPEED + (MOTOR1_MAX_SPEED - MOTOR1_MIN_SPEED) div 3
                  else MOTOR2_MIN_SPEED + (MOTOR2_MAX_SPEED - MOTOR2_MIN_SPEED) div 3),
       fwd_state := True\<rparr>"
| "button_action m FAST_FWD l =
     l\<lparr>new_motor_speed :=
          of_nat (if m = MOTOR_ONE
                  then MOTOR1_MIN_SPEED + (MOTOR1_MAX_SPEED - MOTOR1_MIN_SPEED) * 2 div 3
                  else MOTOR2_MIN_SPEED + (MOTOR2_MAX_SPEED - MOTOR2_MIN_SPEED) * 2 div 3),
       fwd_state := True\<rparr>"
| "button_action m ULTRA_FWD l =
     l\<lparr>new_motor_speed :=
          of_nat (if m = MOTOR_ONE then MOTOR1_MAX_SPEED else MOTOR2_MAX_SPEED),
       fwd_state := True\<rparr>"
| "button_action m SLOWEST_BWD l =
     l\<lparr>new_motor_speed :=
          of_nat (if m = MOTOR_ONE then MOTOR1_MIN_SPEED else MOTOR2_MIN_SPEED),
       bwd_state := True\<rparr>"
| "button_action m SLOW_BWD l =
     l\<lparr>new_motor_speed :=
          of_nat (if m = MOTOR_ONE
                  then MOTOR1_MIN_SPEED + (MOTOR1_MAX_SPEED - MOTOR1_MIN_SPEED) div 3
                  else MOTOR2_MIN_SPEED + (MOTOR2_MAX_SPEED - MOTOR2_MIN_SPEED) div 3),
       bwd_state := True\<rparr>"
| "button_action m FAST_BWD l =
     l\<lparr>new_motor_speed :=
          of_nat (if m = MOTOR_ONE
                  then MOTOR1_MIN_SPEED + (MOTOR1_MAX_SPEED - MOTOR1_MIN_SPEED) * 2 div 3
                  else MOTOR2_MIN_SPEED + (MOTOR2_MAX_SPEED - MOTOR2_MIN_SPEED) * 2 div 3),
       bwd_state := True\<rparr>"
| "button_action m ULTRA_BWD l =
     l\<lparr>new_motor_speed :=
          of_nat (if m = MOTOR_ONE then MOTOR1_MAX_SPEED else MOTOR2_MAX_SPEED),
       bwd_state := True\<rparr>"
| "button_action m MOTOR_SWITCH l = l\<lparr>switch_state := True\<rparr>"

subsection \<open>\<^verbatim>\<open>ResKeybd::tick\<close> of \<^verbatim>\<open>src/ardufocus/ui_reskeybd.cpp\<close>\<close>

text \<open>
  Lines 79-141: \<^verbatim>\<open>setup()\<close>, the raw states taken from the feedback pins, the analog sample
  decoded, and the \<^verbatim>\<open>switch\<close>. The triggers start \<^verbatim>\<open>false\<close> (lines 147-153).
\<close>

definition sample_buttons :: "sample \<Rightarrow> reskeybd \<Rightarrow> locals \<times> reskeybd" where
  "sample_buttons inp k =
     (let k1 = ResKeybd_setup k;
          fwd_previous = fwd_led_low inp;
          bwd_previous = bwd_led_low inp;
          l = \<lparr>fwd_state = fwd_previous, bwd_state = bwd_previous, switch_state = False,
               new_motor_speed = 0, act = decode (adc inp),
               fwd_trigger = False, bwd_trigger = False, switch_trigger = False\<rparr>
      in (button_action (motor k1) (act l) l, k1))"

text \<open>
  Lines 143-154: the three \<^verbatim>\<open>debounce\<close> calls. The third call passes \<^verbatim>\<open>bwd_trigger\<close> as its
  \<^verbatim>\<open>trigger_event\<close>, so the switch filter's answer overwrites the backward filter's and
  \<^verbatim>\<open>switch_trigger\<close> keeps its initial \<^verbatim>\<open>false\<close>.
\<close>

definition debounce_buttons :: "kconfig \<Rightarrow> locals \<times> reskeybd \<Rightarrow> locals \<times> reskeybd" where
  "debounce_buttons kc lk =
     (case lk of (l, k) \<Rightarrow>
        (case debounce (fwd_state l) (previous_state_0 k) (counter_0 k)
                (UI_KAP_BUTTON_DEBOUNCE kc) of
           (fs, p0, ft, c0) \<Rightarrow>
        (case debounce (bwd_state l) (previous_state_1 k) (counter_1 k)
                (UI_KAP_BUTTON_DEBOUNCE kc) of
           (bs, p1, bt, c1) \<Rightarrow>
        (case debounce (switch_state l) (previous_state_2 k) (counter_2 k)
                (UI_KAP_BUTTON_DEBOUNCE kc) of
           (ss, p2, st, c2) \<Rightarrow>
             (l\<lparr>fwd_state := fs, fwd_trigger := ft,
                bwd_state := bs, bwd_trigger := st,
                switch_state := ss\<rparr>,
              k\<lparr>previous_state_0 := p0, counter_0 := c0,
                previous_state_1 := p1, counter_1 := c1,
                previous_state_2 := p2, counter_2 := c2\<rparr>)))))"

text \<open>Lines 157-184: the guarded decision block.\<close>

definition arbitrate :: "kconfig \<Rightarrow> locals \<times> reskeybd \<Rightarrow> engine \<Rightarrow> locals \<times> reskeybd \<times> engine" where
  "arbitrate kc lk e =
     (case lk of (l, k) \<Rightarrow>
        if \<not> fwd_trigger l \<or> \<not> bwd_trigger l then
          if (fwd_trigger l \<and> \<not> fwd_state l) \<or> (bwd_trigger l \<and> \<not> bwd_state l) then
            let k1 = k\<lparr>old_motor_speed := ucast (motor_get_speed (motor k) e)\<rparr>;
                l1 = l\<lparr>fwd_state := fwd_trigger l\<rparr>;
                l2 = l1\<lparr>bwd_state := bwd_trigger l1\<rparr>;
                e1 = (if new_motor_speed l2 > 0
                      then motor_set_speed (motor k1) (ucast (new_motor_speed l2)) e else e);
                e2 = (if \<not> motor_is_moving (motor k1) e1
                      then motor_start (motor k1)
                             (motor_set_target (motion kc) (motor k1)
                                (if fwd_state l2 then - 1 else 0) e1)
                      else e1)
            in (l2, k1, e2)
          else if \<not> fwd_trigger l \<and> \<not> bwd_trigger l then
            (l, k, motor_set_speed (motor k) (ucast (old_motor_speed k)) (motor_stop (motor k) e))
          else (l, k, e)
        else (l, k, e))"

text \<open>
  Lines 186-215: the feedback pins are written and the motor selection is toggled when
  the switch is confirmed and the addressed axis is at rest.
\<close>

definition feedback :: "locals \<times> reskeybd \<times> engine \<Rightarrow> reskeybd \<times> engine" where
  "feedback lke =
     (case lke of (l, k, e) \<Rightarrow>
        let k1 = k\<lparr>fwd_led := fwd_state l, bwd_led := bwd_state l,
                   motor_led := (motor k = MOTOR_ONE)\<rparr>
        in if switch_state l \<and> switch_trigger l \<and> act l = MOTOR_SWITCH
              \<and> \<not> motor_is_moving (motor k1) e
           then (k1\<lparr>motor := (case motor k1 of MOTOR_ONE \<Rightarrow> MOTOR_TWO | MOTOR_TWO \<Rightarrow> MOTOR_ONE)\<rparr>, e)
           else (k1, e))"

definition ResKeybd_tick :: "kconfig \<Rightarrow> sample \<Rightarrow> reskeybd \<times> engine \<Rightarrow> reskeybd \<times> engine" where
  "ResKeybd_tick kc inp ke =
     (case ke of (k, e) \<Rightarrow>
        feedback (arbitrate kc (debounce_buttons kc (sample_buttons inp k)) e))"

subsection \<open>\<^verbatim>\<open>ResKeybd::tick\<close> of \<^verbatim>\<open>src/unnamed/part_000\<close>\<close>

text \<open>Lines 88-157: the raw states start \<^verbatim>\<open>false\<close>; only the analog sample is read.\<close>

definition sample_buttons_part_000 :: "sample \<Rightarrow> reskeybd \<Rightarrow> locals \<times> reskeybd" where
  "sample_buttons_part_000 inp k =
     (let k1 = ResKeybd_setup k;
          l = \<lparr>fwd_state = False, bwd_state = False, switch_state = False,
               new_motor_speed = 0, act = decode_part_000 (adc inp),
               fwd_trigger = False, bwd_trigger = False, switch_trigger = False\<rparr>
      in (button_action (motor k1) (act l) l, k1))"

text \<open>Lines 159-170: each filter writes its own trigger.\<close>

definition debounce_buttons_part_000 :: "kconfig \<Rightarrow> locals \<times> reskeybd \<Rightarrow> locals \<times> reskeybd" where
  "debounce_buttons_part_000 kc lk =
     (case lk of (l, k) \<Rightarrow>
        (case debounce (fwd_state l) (previous_state_0 k) (counter_0 k)
                (UI_KAP_BUTTON_DEBOUNCE kc) of
           (fs, p0, ft, c0) \<Rightarrow>
        (case debounce (bwd_state l) (previous_state_1 k) (counter_1 k)
                (UI_KAP_BUTTON_DEBOUNCE kc) of
           (bs, p1, bt, c1) \<Rightarrow>
        (case debounce (switch_state l) (previous_state_2 k) (counter_2 k)
                (UI_KAP_BUTTON_DEBOUNCE kc) of
           (ss, p2, st, c2) \<Rightarrow>
             (l\<lparr>fwd_state := fs, fwd_trigger := ft,
                bwd_state := bs, bwd_trigger := bt,
                switch_state := ss, switch_trigger := st\<rparr>,
              k\<lparr>previous_state_0 := p0, counter_0 := c0,
                previous_state_1 := p1, counter_1 := c1,
                previous_state_2 := p2, counter_2 := c2\<rparr>)))))"

text \<open>
  Lines 172-234: the feedback pins, then the decision block (\<^verbatim>\<open>MOTOR2_HAS_DRIVER\<close> is on,
  \<^verbatim>\<open>config.h\<close> selects a driver for the second motor). \<^verbatim>\<open>comms.reply\<close> only reports the
  selection to the host.
\<close>

definition arbitrate_part_000 :: "kconfig \<Rightarrow> locals \<times> reskeybd \<Rightarrow> engine \<Rightarrow> reskeybd \<times> engine" where
  "arbitrate_part_000 kc lk e =
     (case lk of (l, k) \<Rightarrow>
        let k1 = k\<lparr>fwd_led := fwd_state l, bwd_led := bwd_state l\<rparr>
        in if fwd_state l \<or> bwd_state l then
             let k2 = (if fwd_trigger l \<or> bwd_trigger l
                       then k1\<lparr>old_motor_speed := ucast (motor_get_speed (motor k1) e)\<rparr>
                       else k1);
                 e1 = motor_set_speed (motor k2) (speed_map kc (new_motor_speed l)) e;
                 e2 = (if \<not> motor_is_moving (motor k2) e1
                       then motor_start (motor k2)
                              (motor_set_target (motion kc) (motor k2)
                                 (if fwd_state l then - 1 else 0) e1)
                       else e1)
             in (k2, e2)
           else
             let e1 = (if fwd_trigger l \<or> bwd_trigger l
                       then motor_set_speed (motor k1) (ucast (old_motor_speed k1))
                              (motor_stop (motor k1) e)
                       else e);
                 k2 = k1\<lparr>motor_led := (motor k1 = MOTOR_ONE)\<rparr>
             in if switch_state l \<and> switch_trigger l \<and> \<not> motor_is_moving (motor k2) e1
                then (k2\<lparr>motor := (case motor k2 of MOTOR_ONE \<Rightarrow> MOTOR_TWO
                                     | MOTOR_TWO \<Rightarrow> MOTOR_ONE)\<rparr>, e1)
                else (k2, e1))"

definition ResKeybd_tick_part_000 ::
  "kconfig \<Rightarrow> sample \<Rightarrow> reskeybd \<times> engine \<Rightarrow> reskeybd \<times> engine" where
  "ResKeybd_tick_part_000 kc inp ke =
     (case ke of (k, e) \<Rightarrow>
        arbitrate_part_000 kc (debounce_buttons_part_000 kc (sample_buttons_part_000 inp k)) e)"

text \<open>The statics as the program starts (\<^verbatim>\<open>motor = MOTOR_ONE\<close>, everything else zero).\<close>

definition power_on :: reskeybd where
  "power_on =
     \<lparr>motor = MOTOR_ONE, inited = False,
      counter_0 = 0, counter_1 = 0, counter_2 = 0,
      previous_state_0 = False, previous_state_1 = False, previous_state_2 = False,
      old_motor_speed = 0, fwd_led = False, bwd_led = False, motor_led = False\<rparr>"

text \<open>
  The statics a run of poll cycles of the second revision can reach from power-on. The
  engine handed to each poll is arbitrary: the scheduler and the host change it between
  polls.
\<close>

inductive reachable_part_000 :: "kconfig \<Rightarrow> reskeybd \<Rightarrow> bool" for kc :: kconfig where
  start: "reachable_part_000 kc power_on"
| poll: "reachable_part_000 kc k \<Longrightarrow> ResKeybd_tick_part_000 kc inp (k, e) = (k', e')
         \<Longrightarrow> reachable_part_000 kc k'"

section \<open>Example inputs\<close>

text \<open>
  A build with the documented defaults of \<^verbatim>\<open>config.h\<close> (\<^verbatim>\<open>ACCEL_DURATION\<close> 250,
  \<^verbatim>\<open>ACCEL_MIN_STEPS\<close> 10, trapezoid profile), a timer of 20 kHz and a two-level stand-in
  for the interpolation.
\<close>

definition example_config :: config where
  "example_config =
     \<lparr>TIMER0_FREQ = 20000, ACCEL_DURATION = 250, ACCEL_MIN_STEPS = 10,
      profile = USE_TRAPEZOID_ACCEL,
      ramp = (\<lambda>lo hi s d. if s < d then lo else hi),
      smooth = (\<lambda>lo hi ein eout dist rel. lo)\<rparr>"

text \<open>
  The same build with a linear interpolation in integers as the stand-in for
  \<^verbatim>\<open>util::lerp(lo, hi, map(s, 0, d, 0.0, 1.0))\<close>: \<open>lo + (hi - lo) * s / d\<close>, truncated as the
  assignment to the \<^verbatim>\<open>uint16_t\<close> \<open>m_set_speed\<close> truncates.
\<close>

definition lerp16 :: "16 word \<Rightarrow> 16 word \<Rightarrow> 32 word \<Rightarrow> 32 word \<Rightarrow> 16 word" where
  "lerp16 lo hi p d = of_nat (unat lo + (unat hi - unat lo) * unat p div unat d)"

definition lerp_config :: config where
  "lerp_config = example_config\<lparr>ramp := lerp16\<rparr>"

text \<open>An axis at rest at position 0 with the speed profile of \<^verbatim>\<open>config.h\<close>.\<close>

definition rest_axis :: stepper where
  "rest_axis =
     \<lparr>moving = False, current = 0, target = 0, relative = 0, distance = 0,
      easein = 0, easeout = 0, m_speed = 2, m_set_speed = 25, m_min_speed = 25,
      m_max_speed = 500, m_ovf_counter = 0, m_invert_direction = False, counter = 0\<rparr>"

text \<open>An axis about to step: moving towards 10 with both gates open.\<close>

definition due_axis :: stepper where
  "due_axis = rest_axis\<lparr>moving := True, target := 10, distance := 10, m_ovf_counter := 399\<rparr>"

text \<open>
  A short move with a stale speed: 5 steps to go, \<open>m_set_speed\<close> still at the maximum of
  the previous move, the first gate open.
\<close>

definition short_axis :: stepper where
  "short_axis =
     rest_axis\<lparr>moving := True, target := 5, distance := 5, m_set_speed := 500,
       m_ovf_counter := 19\<rparr>"

section \<open>Example inputs of the arbiter\<close>

text \<open>
  A debounce threshold of 2, an engine with both axes at rest and one with both axes on
  their way to position 1000 (started by the host).
\<close>

definition example_kconfig :: kconfig where
  "example_kconfig =
     \<lparr>UI_KAP_BUTTON_DEBOUNCE = 2, speed_map = (\<lambda>x. 2), motion = example_config\<rparr>"

definition idle_engine :: engine where
  "idle_engine = \<lparr>axis = (\<lambda>m. rest_axis), issued = []\<rparr>"

definition busy_engine :: engine where
  "busy_engine = \<lparr>axis = (\<lambda>m. rest_axis\<lparr>moving := True, target := 1000\<rparr>), issued = []\<rparr>"

text \<open>
  No button pressed (950 decodes to \<open>NOTHING\<close> in both tables), with the feedback pins
  read \<^verbatim>\<open>LOW\<close> and read \<^verbatim>\<open>HIGH\<close>.
\<close>

definition leds_low_sample :: sample where
  "leds_low_sample = \<lparr>adc = 950, fwd_led_low = True, bwd_led_low = True\<rparr>"

definition leds_high_sample :: sample where
  "leds_high_sample = \<lparr>adc = 950, fwd_led_low = False, bwd_led_low = False\<rparr>"

text \<open>
  The statics of the first revision after three polls from power-on that read the pins
  \<^verbatim>\<open>LOW\<close>, as \<^verbatim>\<open>setup()\<close> leaves them: both direction filters have accepted \<^verbatim>\<open>true\<close>.
\<close>

definition both_latched :: reskeybd where
  "both_latched =
     power_on\<lparr>inited := True, previous_state_0 := True, previous_state_1 := True,
       fwd_led := True, bwd_led := True, motor_led := True\<rparr>"

text \<open>
  The direction filters of the second revision keep in step: they never both hold
  \<^verbatim>\<open>true\<close>, and the counter of the filter that holds \<^verbatim>\<open>true\<close> is never behind the other's.
\<close>

definition in_step :: "reskeybd \<Rightarrow> bool" where
  "in_step k \<longleftrightarrow>
     \<not> (previous_state_0 k \<and> previous_state_1 k) \<and>
     (previous_state_0 k \<longrightarrow> counter_1 k \<le> counter_0 k) \<and>
     (previous_state_1 k \<longrightarrow> counter_0 k \<le> counter_1 k)"

section \<open>Measures of a move\<close>

text \<open>The steps left: the absolute difference of target and current position.\<close>

definition remaining :: "stepper \<Rightarrow> nat" where
  "remaining s =
     unat (if target s > current s then target s - current s else current s - target s)"

text \<open>
  A number of ticks that is enough to finish the move when no other stepper advances
  the static counter. Each step still to make, and the final tick that halts, may need
  the second counter to come round (at most 256 passes of the first gate), and each pass
  of the first gate waits for the overflow counter (at most \<^verbatim>\<open>TIMER0_FREQ / 2\<close> ticks,
  whatever the speed); the last two summands count what is left of the current round and
  of the current wait. With a speed divider below 4 the second gate is always open
  (\<^verbatim>\<open>m_speed >> 1\<close> is 1) and the round counts nothing.
\<close>

definition tick_budget :: "config \<Rightarrow> stepper \<Rightarrow> nat" where
  "tick_budget cfg s =
     (if moving s then remaining s + 1 else 0) * (256 * (TIMER0_FREQ cfg div 2 + 1))
     + (if m_speed s < 4 \<or> counter s = 0 then 0 else 256 - unat (counter s))
         * (TIMER0_FREQ cfg div 2 + 1)
     + nat (int (TIMER0_FREQ cfg) div (2 * uint (m_set_speed s)) - 1 - uint (m_ovf_counter s))"

text \<open>
  The profile fields of a move under way: \<open>relative\<close> counts the steps made, so that with
  the steps left it adds up to \<open>distance\<close>, and for a move of at least \<^verbatim>\<open>ACCEL_MIN_STEPS\<close>
  steps \<open>easein\<close> and \<open>easeout\<close> are what \<^verbatim>\<open>set_target_position\<close> computes for that distance.
\<close>

definition planned :: "config \<Rightarrow> stepper \<Rightarrow> bool" where
  "planned cfg s \<longleftrightarrow>
     unat (relative s) + remaining s = unat (distance s) \<and>
     (ACCEL_MIN_STEPS cfg \<le> unat (distance s) \<longrightarrow>
        (if profile cfg = USE_LINEAR_ACCEL \<or> unat (distance s) < 2 * ACCEL_DURATION cfg
         then easein s = drop_bit 1 (distance s) \<and> easeout s = drop_bit 1 (distance s)
         else easein s = of_nat (ACCEL_DURATION cfg) \<and>
              easeout s = distance s - of_nat (ACCEL_DURATION cfg)))"

text \<open>
  What the scheduler needs to keep stepping: no gate divides by zero now or after any
  step. The speed divider is at least 2, \<open>m_set_speed\<close> is not 0, and the planner does not
  make it 0: the interpolation is asked about ramp positions \<open>p\<close> out of \<open>d\<close> with
  \<open>p \<le> d\<close> and \<open>d \<noteq> 0\<close> only (the smoothstep profile: with distinct edges and a position
  within the distance), which follows from \<open>planned\<close>, \<^verbatim>\<open>ACCEL_DURATION\<close> not 0 and
  \<^verbatim>\<open>ACCEL_MIN_STEPS\<close> at least 2. The threshold of the first gate is within the range of the
  16-bit overflow counter.
\<close>

definition steady :: "config \<Rightarrow> stepper \<Rightarrow> bool" where
  "steady cfg s \<longleftrightarrow>
     m_set_speed s \<noteq> 0 \<and> 2 \<le> m_speed s \<and> m_min_speed s \<noteq> 0 \<and>
     (\<forall>p d. p \<le> d \<and> d \<noteq> 0 \<longrightarrow> ramp cfg (m_min_speed s) (m_max_speed s) p d \<noteq> 0) \<and>
     (\<forall>ein eout dist rel. ein \<noteq> 0 \<and> eout < dist \<and> rel \<le> dist \<longrightarrow>
        smooth cfg (m_min_speed s) (m_max_speed s) ein eout dist rel \<noteq> 0) \<and>
     TIMER0_FREQ cfg div 2 \<le> 65536 \<and>
     0 < ACCEL_DURATION cfg \<and> ACCEL_DURATION cfg < 2 ^ 32 \<and> 2 \<le> ACCEL_MIN_STEPS cfg \<and>
     planned cfg s"

text \<open>A move of one step whose first gate is already open.\<close>

definition one_step_axis :: stepper where
  "one_step_axis =
     rest_axis\<lparr>moving := True, target := 1, distance := 1, m_ovf_counter := 399\<rparr>"

text \<open>
  A move of one step with a speed divider of 4, while another stepper moves at the same
  speed and is ticked first: in each period of 400 ticks the other stepper passes its
  first gate once, on the tick on which this axis passes its own, and has incremented the
  static counter by then.
\<close>

definition crowded_axis :: stepper where
  "crowded_axis = move (set_target_position example_config 1 (rest_axis\<lparr>m_speed := 4\<rparr>))"

definition crowded_period :: "slot list" where
  "crowded_period = replicate 399 alone @ [\<lparr>emits = willing, foreign = 1\<rparr>]"

section \<open>Auxiliary facts\<close>

lemma uint_abs_diff:
  "uint (if (a::32 word) > b then a - b else b - a) = \<bar>uint a - uint b\<bar>"
proof (cases "a > b")
  case True
  then have "b \<le> a" by simp
  then have "uint (a - b) = uint a - uint b" by (rule uint_minus_simple_alt [THEN iffD1])
  moreover have "uint b < uint a" using True by (simp add: word_less_def)
  ultimately show ?thesis using True by simp
next
  case False
  then have le: "a \<le> b" by simp
  then have "uint (b - a) = uint b - uint a" by (rule uint_minus_simple_alt [THEN iffD1])
  moreover have "uint a \<le> uint b" using le by (simp add: word_le_def)
  ultimately show ?thesis using False by simp
qed

lemma unat_half: "unat (drop_bit (Suc 0) (w::32 word)) = unat w div 2"
  by (simp add: drop_bit_eq_div unat_div)

lemma unat_half16: "unat (drop_bit (Suc 0) (w::16 word)) = unat w div 2"
  by (simp add: drop_bit_eq_div unat_div)

lemma speed_half_nonzero: "2 \<le> (w::16 word) \<Longrightarrow> drop_bit (Suc 0) w \<noteq> 0"
proof
  assume "2 \<le> w" and z: "drop_bit (Suc 0) w = 0"
  then have "2 \<le> unat w" by (simp add: word_le_nat_alt)
  moreover from z have "unat w div 2 = 0" using unat_half16 [of w] by simp
  ultimately show False by simp
qed

subsection \<open>The three ways a tick of a moving axis can go\<close>

lemma tick_blocked1:
  "moving s \<Longrightarrow> m_set_speed s \<noteq> 0 \<Longrightarrow> \<not> gate1 cfg s \<Longrightarrow>
   tick cfg em s = Inr (s\<lparr>m_ovf_counter := m_ovf_counter s + 1\<rparr>)"
  by (simp add: tick_def gate1_def Let_def not_le)

lemma tick_blocked2:
  "moving s \<Longrightarrow> m_set_speed s \<noteq> 0 \<Longrightarrow> 2 \<le> m_speed s \<Longrightarrow> gate1 cfg s \<Longrightarrow> \<not> gate2 s \<Longrightarrow>
   tick cfg em s = Inr (s\<lparr>m_ovf_counter := 0, counter := counter s + 1\<rparr>)"
  by (simp add: tick_def gate1_def gate2_def Let_def not_less speed_half_nonzero unat_half16)

lemma tick_open:
  "moving s \<Longrightarrow> m_set_speed s \<noteq> 0 \<Longrightarrow> 2 \<le> m_speed s \<Longrightarrow> gate1 cfg s \<Longrightarrow> gate2 s \<Longrightarrow>
   tick cfg em s =
     (let s3 = s\<lparr>m_ovf_counter := 0, counter := counter s + 1\<rparr>
      in if target s = current s then Inr (halt s3)
         else if asked em s
           then Inr (update_position cfg (if target s > current s then 1 else - 1) s3)
         else Inr s3)"
  by (auto simp add: tick_def gate1_def gate2_def asked_def Let_def not_less
      speed_half_nonzero unat_half16)

lemma update_position_fields:
  "current (update_position cfg d s) = current s + scast d"
  "relative (update_position cfg d s) = relative s + 1"
  "target (update_position cfg d s) = target s"
  "moving (update_position cfg d s) = moving s"
  "m_ovf_counter (update_position cfg d s) = m_ovf_counter s"
  "counter (update_position cfg d s) = counter s"
  "m_speed (update_position cfg d s) = m_speed s"
  "m_min_speed (update_position cfg d s) = m_min_speed s"
  "m_max_speed (update_position cfg d s) = m_max_speed s"
  "distance (update_position cfg d s) = distance s"
  by (simp_all add: update_position_def update_freq_def Let_def)

lemma update_position_speed:
  "m_set_speed (update_position cfg d (s\<lparr>m_ovf_counter := a, counter := b\<rparr>)) =
   m_set_speed (update_freq cfg (s\<lparr>relative := relative s + 1\<rparr>))"
  by (cases "profile cfg") (simp_all add: update_position_def update_freq_def Let_def)

lemma tick_keeps_profile:
  "tick cfg em s = Inr s' \<Longrightarrow> distance s' = distance s \<and> m_min_speed s' = m_min_speed s"
  by (auto simp: tick_def Let_def update_position_fields halt_def split: if_splits)

lemma ticks_keep_profile:
  "ticks cfg slots s = Inr s' \<Longrightarrow> distance s' = distance s \<and> m_min_speed s' = m_min_speed s"
proof (induction slots arbitrary: s)
  case Nil
  then show ?case by simp
next
  case (Cons sl slots)
  then show ?case
    by (auto split: sum.splits dest!: tick_keeps_profile)
qed

lemma tick_step_short:
  "tick cfg em s = Inr s' \<Longrightarrow> current s' \<noteq> current s \<Longrightarrow>
   unat (distance s) < ACCEL_MIN_STEPS cfg \<Longrightarrow> m_set_speed s' = m_min_speed s"
  by (auto simp: tick_def Let_def update_position_def update_freq_def halt_def
      split: if_splits)

subsection \<open>Debounce filter and decoder\<close>

lemma debounce_suppress:
  "raw \<noteq> prev \<Longrightarrow> cnt < th \<Longrightarrow> debounce raw prev cnt th = (prev, prev, False, cnt + 1)"
  by (simp add: debounce_def)

lemma debounce_accept:
  "raw \<noteq> prev \<Longrightarrow> \<not> cnt < th \<Longrightarrow> debounce raw prev cnt th = (raw, raw, True, 0)"
  by (simp add: debounce_def)

lemma debounce_same:
  "debounce prev prev cnt th = (prev, prev, False, 0)"
  by (simp add: debounce_def)

lemma feed_append:
  "feed th (xs @ ys) pc =
     (case feed th xs pc of (o1, pc1) \<Rightarrow>
        (case feed th ys pc1 of (o2, pc2) \<Rightarrow> (o1 @ o2, pc2)))"
  by (induction xs arbitrary: pc) (auto split: prod.splits)

lemma feed_quiet:
  "feed th (replicate n False) (False, 0) = (replicate n (False, False), (False, 0))"
  by (induction n) (simp_all add: debounce_same)

lemma feed_held:
  "unat c + n \<le> unat th \<Longrightarrow>
   feed th (replicate n True) (False, c) = (replicate n (False, False), (False, c + of_nat n))"
proof (induction n arbitrary: c)
  case 0
  then show ?case by simp
next
  case (Suc n)
  then have lt: "unat c < unat th" by simp
  then have "c < th" by (simp add: word_less_nat_alt)
  then have d: "debounce True False c th = (False, False, False, c + 1)"
    by (simp add: debounce_suppress)
  have "unat th < 256" using unsigned_less [of th] by simp
  with lt have "unat c + 1 < 256" by simp
  then have "unat (c + 1) = unat c + 1"
    using unat_add_lem [of c 1] by (simp)
  with Suc.prems have "unat (c + 1) + n \<le> unat th" by simp
  from Suc.IH [OF this] d show ?case by (simp add: add.assoc)
qed


lemma decode_scan_first:
  "k < length (triples bv) \<Longrightarrow> inside (triples bv ! k) v \<Longrightarrow>
   (\<forall>j<k. \<not> inside (triples bv ! j) v) \<Longrightarrow>
   decode_scan bv v = snd (snd (triples bv ! k))"
proof (induction bv v arbitrary: k rule: decode_scan.induct)
  case (1 lo hi a rest v)
  show ?case
  proof (cases k)
    case 0
    with "1.prems" show ?thesis by (simp add: inside_def)
  next
    case (Suc k')
    with "1.prems" have out: "\<not> inside (lo, hi, static_cast_action a) v" by auto
    from Suc "1.prems" have "k' < length (triples rest)" "inside (triples rest ! k') v"
      "\<forall>j<k'. \<not> inside (triples rest ! j) v" by auto
    with "1.IH" out have "decode_scan rest v = snd (snd (triples rest ! k'))"
      by (auto simp: inside_def)
    with out Suc show ?thesis by (auto simp: inside_def)
  qed
qed simp_all

lemma decode_scan_none:
  "(\<forall>k<length (triples bv). \<not> inside (triples bv ! k) v) \<Longrightarrow> decode_scan bv v = NOTHING"
proof (induction bv v rule: decode_scan.induct)
  case (1 lo hi a rest v)
  from "1.prems" have out: "\<not> inside (lo, hi, static_cast_action a) v" by auto
  from "1.prems" have "\<forall>k<length (triples rest). \<not> inside (triples rest ! k) v" by auto
  with "1.IH" out show ?case by (auto simp: inside_def)
qed simp_all

lemma triples_part_000:
  "triples button_values_part_000 =
     [(900, 990, NOTHING), (800, 899, MOTOR_SWITCH), (690, 799, FAST_FWD),
      (400, 500, ULTRA_FWD), (111, 210, FAST_BWD), (30, 110, ULTRA_BWD),
      (600, 689, SLOWEST_FWD), (330, 399, SLOW_FWD), (501, 600, SLOWEST_BWD),
      (211, 350, SLOW_BWD)]"
  by (simp add: button_values_part_000_def static_cast_action_def)

subsection \<open>Progress of the scheduler\<close>

lemma word_gap_up:
  fixes a b :: "32 word"
  assumes "a < b"
  shows "unat (if a + 1 < b then b - (a + 1) else a + 1 - b) + 1 = unat (b - a)"
proof -
  from assms have le1: "a + 1 \<le> b" by (rule inc_le)
  have "1 + a \<noteq> 0"
  proof
    assume "1 + a = 0"
    then have "a = - 1" by (simp add: eq_neg_iff_add_eq_0 add.commute)
    with assms show False by simp
  qed
  then have "unat (1 + a) = Suc (unat a)" by (rule unatSuc)
  then have u1: "unat (a + 1) = unat a + 1" by (simp add: add.commute)
  from assms have lt: "unat a < unat b" by (simp add: word_less_nat_alt)
  from assms have "a \<le> b" by simp
  then have d: "unat (b - a) = unat b - unat a" by (rule unat_sub)
  from le1 have d1: "unat (b - (a + 1)) = unat b - unat (a + 1)" by (rule unat_sub)
  show ?thesis
  proof (cases "a + 1 < b")
    case True
    with d d1 u1 lt show ?thesis by simp
  next
    case False
    with le1 have "a + 1 = b" by simp
    with d u1 show ?thesis by simp
  qed
qed

lemma word_gap_down:
  fixes a b :: "32 word"
  assumes "b < a"
  shows "unat (if a - 1 < b then b - (a - 1) else a - 1 - b) + 1 = unat (a - b)"
proof -
  from assms have le1: "b \<le> a - 1" by (rule less_imp_less_eq_dec)
  then have nl: "\<not> a - 1 < b" by simp
  from assms have "a \<noteq> 0" by auto
  then have u1: "unat (a - 1) = unat a - 1" by (rule unat_minus_one)
  from assms have lt: "unat b < unat a" by (simp add: word_less_nat_alt)
  from assms have "b \<le> a" by simp
  then have d: "unat (a - b) = unat a - unat b" by (rule unat_sub)
  from le1 have d1: "unat (a - 1 - b) = unat (a - 1) - unat b" by (rule unat_sub)
  from nl d d1 u1 lt show ?thesis by simp
qed

lemma remaining_up:
  assumes "current s < target s"
  shows "remaining (s\<lparr>current := current s + 1\<rparr>) + 1 = remaining s"
proof -
  have a: "remaining (s\<lparr>current := current s + 1\<rparr>)
      = unat (if current s + 1 < target s then target s - (current s + 1)
              else current s + 1 - target s)"
    by (simp add: remaining_def)
  have b: "remaining s = unat (target s - current s)"
    using assms by (simp add: remaining_def)
  show ?thesis unfolding a b by (rule word_gap_up [OF assms])
qed

lemma remaining_down:
  assumes "target s < current s"
  shows "remaining (s\<lparr>current := current s - 1\<rparr>) + 1 = remaining s"
proof -
  have a: "remaining (s\<lparr>current := current s - 1\<rparr>)
      = unat (if current s - 1 < target s then target s - (current s - 1)
              else current s - 1 - target s)"
    by (simp add: remaining_def)
  from assms have "\<not> current s < target s" by simp
  then have b: "remaining s = unat (current s - target s)"
    by (simp add: remaining_def)
  show ?thesis unfolding a b by (rule word_gap_down [OF assms])
qed

lemma threshold_le:
  assumes "(v::16 word) \<noteq> 0"
  shows "int F div (2 * uint v) \<le> int (F div 2)"
proof -
  from assms have "uint v \<noteq> 0" by (simp add: uint_0_iff)
  moreover have "0 \<le> uint v" by simp
  ultimately have "0 < uint v" by linarith
  then have "int F div (2 * uint v) \<le> int F div 2"
    by (intro zdiv_mono2) simp_all
  then show ?thesis by (simp add: zdiv_int)
qed

lemma unat_of_nat32: "n < 2 ^ 32 \<Longrightarrow> unat (of_nat n :: 32 word) = n"
  by (simp add: unat_of_nat take_bit_nat_eq_self)

lemma unat_of_nat16: "n < 65536 \<Longrightarrow> unat (of_nat n :: 16 word) = n"
  by (simp add: unat_of_nat take_bit_nat_eq_self)

lemma planned_start: "planned cfg (move (set_target_position cfg t s))"
proof -
  let ?s = "move (set_target_position cfg t s)"
  have f: "relative ?s = 0" "target ?s = t" "current ?s = current s"
    "distance ?s = (if current s > t then current s - t else t - current s)"
    by (cases "profile cfg"; simp add: move_def set_target_position_def Let_def)+
  have r: "remaining ?s = unat (distance ?s)"
  proof (cases "current s = t")
    case True
    then show ?thesis by (simp add: remaining_def f)
  next
    case False
    then have "current s < t \<longleftrightarrow> \<not> t < current s" by auto
    then show ?thesis by (simp add: remaining_def f)
  qed
  have e: "ACCEL_MIN_STEPS cfg \<le> unat (distance ?s) \<longrightarrow>
        (if profile cfg = USE_LINEAR_ACCEL \<or> unat (distance ?s) < 2 * ACCEL_DURATION cfg
         then easein ?s = drop_bit 1 (distance ?s) \<and> easeout ?s = drop_bit 1 (distance ?s)
         else easein ?s = of_nat (ACCEL_DURATION cfg) \<and>
              easeout ?s = distance ?s - of_nat (ACCEL_DURATION cfg))"
    by (cases "profile cfg"; simp add: move_def set_target_position_def Let_def)
  from r e show ?thesis unfolding planned_def by (simp add: f(1))
qed

lemma planned_step:
  assumes pl: "planned cfg s"
    and dir: "(current s < target s \<and> d = 1) \<or> (target s < current s \<and> d = - 1)"
  shows "planned cfg (s\<lparr>current := current s + scast (d::8 word), relative := relative s + 1\<rparr>)"
proof -
  let ?s' = "s\<lparr>current := current s + scast d, relative := relative s + 1\<rparr>"
  have rem: "remaining ?s' + 1 = remaining s"
  proof -
    from dir consider "current s < target s" "d = 1" | "target s < current s" "d = - 1"
      by blast
    then show ?thesis
    proof cases
      case 1
      have "remaining ?s' = remaining (s\<lparr>current := current s + 1\<rparr>)"
        using 1 by (simp add: remaining_def)
      with remaining_up [OF 1(1)] show ?thesis by simp
    next
      case 2
      have "remaining ?s' = remaining (s\<lparr>current := current s - 1\<rparr>)"
        using 2 by (simp add: remaining_def)
      with remaining_down [OF 2(1)] show ?thesis by simp
    qed
  qed
  from pl have sum: "unat (relative s) + remaining s = unat (distance s)"
    by (simp add: planned_def)
  have "unat (distance s) < 2 ^ LENGTH(32)" by (rule unsigned_less)
  with sum rem have "unat (relative s) + unat (1::32 word) < 2 ^ LENGTH(32)" by simp
  then have "unat (relative s + 1) = unat (relative s) + unat (1::32 word)"
    by (rule unat_add_lem [THEN iffD1])
  then have u: "unat (relative s + 1) = unat (relative s) + 1" by simp
  from sum rem u have "unat (relative ?s') + remaining ?s' = unat (distance ?s')" by simp
  moreover from pl have "ACCEL_MIN_STEPS cfg \<le> unat (distance ?s') \<longrightarrow>
        (if profile cfg = USE_LINEAR_ACCEL \<or> unat (distance ?s') < 2 * ACCEL_DURATION cfg
         then easein ?s' = drop_bit 1 (distance ?s') \<and> easeout ?s' = drop_bit 1 (distance ?s')
         else easein ?s' = of_nat (ACCEL_DURATION cfg) \<and>
              easeout ?s' = distance ?s' - of_nat (ACCEL_DURATION cfg))"
    by (simp add: planned_def)
  ultimately show ?thesis unfolding planned_def by (rule conjI)
qed

lemma update_freq_steady:
  assumes st: "steady cfg s"
  shows "m_set_speed (update_freq cfg s) \<noteq> 0"
proof (cases "ACCEL_MIN_STEPS cfg \<le> unat (distance s)")
  case False
  with st show ?thesis by (simp add: update_freq_def steady_def)
next
  case long: True
  let ?n = "unat (distance s)" and ?r = "unat (relative s)" and ?D = "ACCEL_DURATION cfg"
  from st have rp: "p \<le> d \<Longrightarrow> d \<noteq> 0 \<Longrightarrow> ramp cfg (m_min_speed s) (m_max_speed s) p d \<noteq> 0"
    for p d by (simp add: steady_def)
  from st have sm: "ein \<noteq> 0 \<Longrightarrow> eout < dist \<Longrightarrow> rel \<le> dist \<Longrightarrow>
      smooth cfg (m_min_speed s) (m_max_speed s) ein eout dist rel \<noteq> 0"
    for ein eout dist rel by (simp add: steady_def)
  from st have D: "0 < ?D" "?D < 2 ^ 32" and M: "2 \<le> ACCEL_MIN_STEPS cfg"
    and pl: "planned cfg s" by (simp_all add: steady_def)
  from pl have rn: "?r \<le> ?n" by (simp add: planned_def)
  then have rd: "relative s \<le> distance s" by (simp add: word_le_nat_alt)
  then have sub: "unat (distance s - relative s) = ?n - ?r" by (rule unat_sub)
  have uD: "unat (of_nat ?D :: 32 word) = ?D" by (rule unat_of_nat32 [OF D(2)])
  have Dnz: "(of_nat ?D :: 32 word) \<noteq> 0"
  proof
    assume "(of_nat ?D :: 32 word) = 0"
    with uD D(1) show False by simp
  qed
  have uh: "unat (drop_bit 1 (distance s)) = ?n div 2" using unat_half [of "distance s"] by simp
  from long M have n2: "2 \<le> ?n" by simp
  show ?thesis
  proof (cases "profile cfg = USE_LINEAR_ACCEL \<or> ?n < 2 * ?D")
    case short: True
    with pl long have e: "easein s = drop_bit 1 (distance s)" "easeout s = drop_bit 1 (distance s)"
      by (simp_all add: planned_def)
    have ue: "unat (easein s) = ?n div 2" by (simp only: e uh)
    have enz: "easein s \<noteq> 0"
    proof
      assume "easein s = 0"
      with ue n2 show False by simp
    qed
    show ?thesis
    proof (cases "profile cfg")
      case USE_LINEAR_ACCEL
      have "(if relative s \<le> easein s then relative s else distance s - relative s) \<le> easein s"
      proof (cases "relative s \<le> easein s")
        case True
        then show ?thesis by simp
      next
        case False
        then have "?n div 2 < ?r" by (simp add: word_le_nat_alt ue not_le)
        with rn have "?n - ?r \<le> ?n div 2" by linarith
        then have "distance s - relative s \<le> easein s" by (simp add: word_le_nat_alt sub ue)
        with False show ?thesis by simp
      qed
      from rp [OF this enz] show ?thesis
        using long by (simp add: update_freq_def USE_LINEAR_ACCEL)
    next
      case USE_TRAPEZOID_ACCEL
      with short have lt: "?n < 2 * ?D" by simp
      have "(if relative s \<le> easein s then relative s
             else if easeout s \<le> relative s then distance s - relative s
             else of_nat ?D) \<le> (of_nat ?D :: 32 word)"
      proof (cases "relative s \<le> easein s")
        case True
        then have "?r \<le> ?n div 2" by (simp add: word_le_nat_alt ue)
        with lt have "?r \<le> ?D" by linarith
        then have "relative s \<le> of_nat ?D" by (simp add: word_le_nat_alt uD)
        with True show ?thesis by simp
      next
        case False
        then have "?n div 2 < ?r" by (simp add: word_le_nat_alt ue not_le)
        with lt rn have "?n - ?r \<le> ?D" by linarith
        then have "distance s - relative s \<le> of_nat ?D" by (simp add: word_le_nat_alt sub uD)
        with False show ?thesis by simp
      qed
      from rp [OF this Dnz] show ?thesis
        using long by (simp add: update_freq_def USE_TRAPEZOID_ACCEL)
    next
      case USE_SMOOTHSTEP_ACCEL
      from n2 have "?n div 2 < ?n" by linarith
      then have "easeout s < distance s" by (simp only: word_less_nat_alt e uh)
      from sm [OF enz this rd] show ?thesis
        using long by (simp add: update_freq_def USE_SMOOTHSTEP_ACCEL)
    qed
  next
    case far: False
    then have nl: "profile cfg \<noteq> USE_LINEAR_ACCEL" and ge: "2 * ?D \<le> ?n" by simp_all
    with pl long have e: "easein s = of_nat ?D" "easeout s = distance s - of_nat ?D"
      by (simp_all add: planned_def)
    from ge have "(of_nat ?D :: 32 word) \<le> distance s" by (simp add: word_le_nat_alt uD)
    then have "unat (distance s - of_nat ?D) = ?n - unat (of_nat ?D :: 32 word)" by (rule unat_sub)
    then have ueo: "unat (easeout s) = ?n - ?D" by (simp only: e uD)
    show ?thesis
    proof (cases "profile cfg")
      case USE_LINEAR_ACCEL
      with nl show ?thesis by simp
    next
      case USE_TRAPEZOID_ACCEL
      have "(if relative s \<le> easein s then relative s
             else if easeout s \<le> relative s then distance s - relative s
             else of_nat ?D) \<le> (of_nat ?D :: 32 word)"
      proof (cases "relative s \<le> easein s")
        case True
        then show ?thesis by (simp add: e)
      next
        case f1: False
        show ?thesis
        proof (cases "easeout s \<le> relative s")
          case True
          then have "?n - ?D \<le> ?r" by (simp add: word_le_nat_alt ueo)
          with rn have "?n - ?r \<le> ?D" by linarith
          then have "distance s - relative s \<le> of_nat ?D"
            by (simp add: word_le_nat_alt sub uD)
          with f1 True show ?thesis by simp
        next
          case False
          with f1 show ?thesis by simp
        qed
      qed
      from rp [OF this Dnz] show ?thesis
        using long by (simp add: update_freq_def USE_TRAPEZOID_ACCEL)
    next
      case USE_SMOOTHSTEP_ACCEL
      have enz: "easein s \<noteq> 0" by (simp only: e) (rule Dnz)
      from ge D(1) have "?n - ?D < ?n" by linarith
      then have "easeout s < distance s" by (simp add: word_less_nat_alt ueo)
      from sm [OF enz this rd] show ?thesis
        using long by (simp add: update_freq_def USE_SMOOTHSTEP_ACCEL)
    qed
  qed
qed

lemma steady_cong:
  "steady cfg s \<Longrightarrow> m_set_speed s' \<noteq> 0 \<Longrightarrow> planned cfg s' \<Longrightarrow> m_speed s' = m_speed s \<Longrightarrow>
   m_min_speed s' = m_min_speed s \<Longrightarrow> m_max_speed s' = m_max_speed s \<Longrightarrow> steady cfg s'"
  by (simp add: steady_def)

lemma planned_counters:
  "planned cfg (s\<lparr>m_ovf_counter := a\<rparr>) = planned cfg s"
  "planned cfg (s\<lparr>counter := b\<rparr>) = planned cfg s"
  "planned cfg (s\<lparr>m_ovf_counter := a, counter := b\<rparr>) = planned cfg s"
  by (simp_all add: planned_def remaining_def)

lemma steady_counters:
  "steady cfg (s\<lparr>m_ovf_counter := a\<rparr>) = steady cfg s"
  "steady cfg (s\<lparr>counter := b\<rparr>) = steady cfg s"
  "steady cfg (s\<lparr>m_ovf_counter := a, counter := b\<rparr>) = steady cfg s"
  by (simp_all add: steady_def planned_counters)

lemma planned_update_freq: "planned cfg (update_freq cfg s) = planned cfg s"
  by (simp add: update_freq_def planned_def remaining_def)

lemma steady_halt:
  "steady cfg s \<Longrightarrow> target s = current s \<Longrightarrow>
   steady cfg (halt (s\<lparr>m_ovf_counter := a, counter := b\<rparr>))"
  by (simp add: steady_def planned_def remaining_def halt_def)

lemma gate2_small: "2 \<le> m_speed s \<Longrightarrow> m_speed s < 4 \<Longrightarrow> gate2 s"
proof -
  assume "2 \<le> m_speed s" "m_speed s < 4"
  then have "2 \<le> unat (m_speed s)" "unat (m_speed s) < 4"
    by (simp_all add: word_le_nat_alt word_less_nat_alt)
  then have "unat (m_speed s) div 2 = 1" by linarith
  then show ?thesis by (simp add: gate2_def)
qed

text \<open>The weights of the budget, named.\<close>

lemma budget_less:
  fixes K :: nat
  assumes "m3' < K" and "m1' * (256 * K) + (m2' + 1) * K \<le> m1 * (256 * K) + m2 * K"
  shows "m1' * (256 * K) + m2' * K + m3' < m1 * (256 * K) + m2 * K + m3"
proof -
  have "m1' * (256 * K) + m2' * K + m3' < m1' * (256 * K) + m2' * K + K"
    using assms(1) by simp
  also have "\<dots> = m1' * (256 * K) + (m2' + 1) * K" by simp
  also have "\<dots> \<le> m1 * (256 * K) + m2 * K" by (rule assms(2))
  also have "\<dots> \<le> m1 * (256 * K) + m2 * K + m3" by simp
  finally show ?thesis .
qed

lemma fresh_wait:
  assumes "(v::16 word) \<noteq> 0"
  shows "nat (int F div (2 * uint v) - 1 - uint (0::16 word)) < F div 2 + 1"
  using threshold_le [OF assms, of F] by simp

lemma counter_weight_le:
  "(if b \<or> (c::8 word) = 0 then 0 else 256 - unat c) \<le> (255::nat)"
proof (cases "b \<or> c = 0")
  case True
  then show ?thesis by auto
next
  case False
  then have "unat c \<noteq> 0" by (simp add: unat_eq_0)
  then show ?thesis using False by simp
qed

lemma counter_weight_dec:
  assumes "(c::8 word) \<noteq> 0"
  shows "(if c + 1 = 0 then 0 else 256 - unat (c + 1)) + 1 \<le> (256 - unat c :: nat)"
proof (cases "c + 1 = 0")
  case True
  have "unat c < 256" using unsigned_less [of c] by simp
  then show ?thesis using True by simp
next
  case False
  then have "1 + c \<noteq> 0" by (simp add: add.commute)
  then have "unat (1 + c) = Suc (unat c)" by (rule unatSuc)
  then have u: "unat (c + 1) = unat c + 1" by (simp add: add.commute)
  have "unat (c + 1) < 256" using unsigned_less [of "c + 1"] by simp
  with u False show ?thesis by simp
qed


lemma step_blocked1:
  assumes st: "steady cfg s" and g: "\<not> gate1 cfg s"
  shows "tick_budget cfg (s\<lparr>m_ovf_counter := m_ovf_counter s + 1\<rparr>) < tick_budget cfg s"
proof -
  let ?T = "int (TIMER0_FREQ cfg) div (2 * uint (m_set_speed s))"
  from st have v: "m_set_speed s \<noteq> 0" and f: "TIMER0_FREQ cfg div 2 \<le> 65536"
    by (simp_all add: steady_def)
  from g have lt: "uint (m_ovf_counter s) < ?T - 1" by (simp add: gate1_def)
  from threshold_le [OF v, of "TIMER0_FREQ cfg"] f have "?T \<le> 65536" by simp
  with lt have "uint (m_ovf_counter s) + uint (1::16 word) < 2 ^ LENGTH(16)" by simp
  then have "uint (m_ovf_counter s + 1) = uint (m_ovf_counter s) + uint (1::16 word)"
    by (rule uint_add_lem [THEN iffD1])
  then have u: "uint (m_ovf_counter s + 1) = uint (m_ovf_counter s) + 1" by simp
  from lt have "nat (?T - 1 - (uint (m_ovf_counter s) + 1)) < nat (?T - 1 - uint (m_ovf_counter s))"
    by simp
  then show ?thesis by (simp add: tick_budget_def remaining_def u)
qed

lemma step_blocked2:
  assumes st: "steady cfg s" and g: "\<not> gate2 s"
  shows "tick_budget cfg (s\<lparr>m_ovf_counter := 0, counter := counter s + 1\<rparr>) < tick_budget cfg s"
proof -
  from st have v: "m_set_speed s \<noteq> 0" and sp: "2 \<le> m_speed s" by (simp_all add: steady_def)
  from g have c: "counter s \<noteq> 0" by (auto simp: gate2_def)
  from g sp have big: "\<not> m_speed s < 4" using gate2_small [of s] by blast
  let ?K = "TIMER0_FREQ cfg div 2 + 1"
  let ?m1 = "if moving s then remaining s + 1 else 0"
  let ?m2' = "if counter s + 1 = 0 then 0 else 256 - unat (counter s + 1)"
  let ?m3' = "nat (int (TIMER0_FREQ cfg) div (2 * uint (m_set_speed s)) - 1 - uint (0::16 word))"
  let ?m3 = "nat (int (TIMER0_FREQ cfg) div (2 * uint (m_set_speed s)) - 1 - uint (m_ovf_counter s))"
  have a: "?m3' < ?K"
    by (rule fresh_wait [OF v])
  have "(?m2' + 1) * ?K \<le> (256 - unat (counter s)) * ?K"
    by (rule mult_le_mono1) (rule counter_weight_dec [OF c])
  then have b: "?m1 * (256 * ?K) + (?m2' + 1) * ?K
      \<le> ?m1 * (256 * ?K) + (256 - unat (counter s)) * ?K"
    by (rule add_left_mono)
  have e1: "tick_budget cfg (s\<lparr>m_ovf_counter := 0, counter := counter s + 1\<rparr>)
      = ?m1 * (256 * ?K) + ?m2' * ?K + ?m3'"
    using big by (simp add: tick_budget_def remaining_def)
  have e2: "tick_budget cfg s = ?m1 * (256 * ?K) + (256 - unat (counter s)) * ?K + ?m3"
    using c big by (simp add: tick_budget_def)
  show ?thesis unfolding e1 e2 by (rule budget_less [OF a b])
qed

lemma step_fire:
  assumes st: "steady cfg s" and mv: "moving s"
    and s3: "s3 = s\<lparr>m_ovf_counter := 0, counter := counter s + 1\<rparr>"
    and dir: "(current s < target s \<and> d = 1) \<or> (target s < current s \<and> d = - 1)"
  shows "steady cfg (update_position cfg d s3) \<and>
         remaining (update_position cfg d s3) + 1 = remaining s \<and>
         tick_budget cfg (update_position cfg d s3) < tick_budget cfg s"
proof -
  let ?s1 = "update_position cfg d s3"
  let ?K = "TIMER0_FREQ cfg div 2 + 1"
  let ?m2' = "if m_speed s < 4 \<or> counter s + 1 = 0 then 0 else 256 - unat (counter s + 1)"
  let ?m2 = "if m_speed s < 4 \<or> counter s = 0 then 0 else 256 - unat (counter s)"
  let ?s2 = "s3\<lparr>current := current s3 + scast d, relative := relative s3 + 1\<rparr>"
  have up: "?s1 = update_freq cfg ?s2"
    by (simp add: update_position_def Let_def)
  from st have pl: "planned cfg s" by (simp add: steady_def)
  have eq: "?s2 = (s\<lparr>current := current s + scast d, relative := relative s + 1\<rparr>)
      \<lparr>m_ovf_counter := 0, counter := counter s + 1\<rparr>"
    by (simp add: s3)
  have pl2: "planned cfg ?s2"
    unfolding eq planned_counters by (rule planned_step [OF pl dir])
  have "steady cfg ?s2"
    by (rule steady_cong [OF st _ pl2]) (use st in \<open>simp_all add: steady_def s3\<close>)
  then have v': "m_set_speed ?s1 \<noteq> 0" unfolding up by (rule update_freq_steady)
  have pl1: "planned cfg ?s1"
    unfolding up planned_update_freq by (rule pl2)
  have st1: "steady cfg ?s1"
    by (rule steady_cong [OF st v' pl1]) (simp_all add: update_position_fields s3)
  have rem: "remaining ?s1 + 1 = remaining s"
  proof -
    from dir consider "current s < target s" "d = 1" | "target s < current s" "d = - 1"
      by blast
    then show ?thesis
    proof cases
      case 1
      have "remaining ?s1 = remaining (s\<lparr>current := current s + 1\<rparr>)"
        using 1 by (simp add: remaining_def update_position_fields s3)
      with remaining_up [OF 1(1)] show ?thesis by simp
    next
      case 2
      have "remaining ?s1 = remaining (s\<lparr>current := current s - 1\<rparr>)"
        using 2 by (simp add: remaining_def update_position_fields s3)
      with remaining_down [OF 2(1)] show ?thesis by simp
    qed
  qed
  have a: "nat (int (TIMER0_FREQ cfg) div (2 * uint (m_set_speed ?s1)) - 1 - uint (0::16 word)) < ?K"
    by (rule fresh_wait [OF v'])
  have "?m2' + 1 \<le> 256" using counter_weight_le [of "m_speed s < 4" "counter s + 1"] by simp
  then have "(?m2' + 1) * ?K \<le> 256 * ?K"
    by (rule mult_le_mono1)
  then have "(remaining ?s1 + 1) * (256 * ?K) + (?m2' + 1) * ?K
      \<le> (remaining ?s1 + 1) * (256 * ?K) + 256 * ?K"
    by (rule add_left_mono)
  also have "\<dots> = (remaining ?s1 + 1 + 1) * (256 * ?K)"
    by (simp only: add_mult_distrib mult_1)
  also have "\<dots> = (remaining s + 1) * (256 * ?K)"
    by (simp only: rem)
  also have "\<dots> \<le> (remaining s + 1) * (256 * ?K) + ?m2 * ?K"
    by (rule le_add1)
  finally have b: "(remaining ?s1 + 1) * (256 * ?K) + (?m2' + 1) * ?K
      \<le> (remaining s + 1) * (256 * ?K) + ?m2 * ?K" .
  have e1: "tick_budget cfg ?s1 =
      (remaining ?s1 + 1) * (256 * ?K) + ?m2' * ?K
      + nat (int (TIMER0_FREQ cfg) div (2 * uint (m_set_speed ?s1)) - 1 - uint (0::16 word))"
    using mv by (simp add: tick_budget_def update_position_fields s3)
  have e2: "tick_budget cfg s =
      (remaining s + 1) * (256 * ?K) + ?m2 * ?K
      + nat (int (TIMER0_FREQ cfg) div (2 * uint (m_set_speed s)) - 1 - uint (m_ovf_counter s))"
    using mv by (simp add: tick_budget_def)
  have "tick_budget cfg ?s1 < tick_budget cfg s"
    unfolding e1 e2 by (rule budget_less [OF a b])
  with st1 rem show ?thesis by simp
qed

lemma tick_progress_alone:
  assumes st: "steady cfg s" and mv: "moving s"
  shows "\<exists>s1. tick cfg willing s = Inr s1 \<and> target s1 = target s \<and> m_speed s1 = m_speed s \<and>
           steady cfg s1 \<and> remaining s \<le> remaining s1 + 1 \<and>
           (if moving s1 then tick_budget cfg s1 < tick_budget cfg s
            else current s1 = target s1 \<and> remaining s = 0)"
proof -
  from st have v: "m_set_speed s \<noteq> 0" and sp: "2 \<le> m_speed s" by (simp_all add: steady_def)
  show ?thesis
  proof (cases "gate1 cfg s")
    case False
    have "steady cfg (s\<lparr>m_ovf_counter := m_ovf_counter s + 1\<rparr>)"
      using st by (simp add: steady_counters)
    with step_blocked1 [OF st False] mv show ?thesis
      by (simp add: tick_blocked1 [OF mv v False] remaining_def)
  next
    case g1: True
    show ?thesis
    proof (cases "gate2 s")
      case False
      have "steady cfg (s\<lparr>m_ovf_counter := 0, counter := counter s + 1\<rparr>)"
        using st by (simp add: steady_counters)
      with step_blocked2 [OF st False] mv show ?thesis
        by (simp add: tick_blocked2 [OF mv v sp g1 False] remaining_def)
    next
      case g2: True
      note opened = tick_open [OF mv v sp g1 g2, of willing]
      show ?thesis
      proof (cases "target s = current s")
        case True
        have "steady cfg (halt (s\<lparr>m_ovf_counter := 0, counter := counter s + 1\<rparr>))"
          by (rule steady_halt [OF st True])
        then show ?thesis using True
          by (simp add: opened Let_def halt_def remaining_def)
      next
        case False
        define d :: "8 word" where "d = (if target s > current s then 1 else - 1)"
        define s3 where "s3 = s\<lparr>m_ovf_counter := 0, counter := counter s + 1\<rparr>"
        from False have dir: "(current s < target s \<and> d = 1) \<or> (target s < current s \<and> d = - 1)"
          by (auto simp: d_def not_less word_le_less_eq)
        have ask: "asked willing s" by (simp add: asked_def willing_def)
        have t: "tick cfg willing s = Inr (update_position cfg d s3)"
          using False ask by (simp add: opened Let_def d_def s3_def)
        from step_fire [OF st mv s3_def dir] mv show ?thesis
          by (simp add: t update_position_fields s3_def)
      qed
    qed
  qed
qed

text \<open>
  The same with the static counter advanced by other steppers before the tick: the tick
  still returns and never makes more than one step; the budget is known to shrink when
  the counter was left alone or the second gate is always open.
\<close>

lemma tick_progress:
  assumes st: "steady cfg s" and mv: "moving s"
  shows "\<exists>s1. tick cfg willing (s\<lparr>counter := counter s + of_nat k\<rparr>) = Inr s1 \<and>
           target s1 = target s \<and> m_speed s1 = m_speed s \<and>
           steady cfg s1 \<and> remaining s \<le> remaining s1 + 1 \<and>
           (if moving s1 then k = 0 \<or> m_speed s < 4 \<longrightarrow> tick_budget cfg s1 < tick_budget cfg s
            else current s1 = target s1 \<and> remaining s = 0)"
proof -
  let ?sd = "s\<lparr>counter := counter s + of_nat k\<rparr>"
  have std: "steady cfg ?sd" using st by (simp add: steady_counters)
  have mvd: "moving ?sd" using mv by simp
  have b: "tick_budget cfg ?sd = tick_budget cfg s" if "k = 0 \<or> m_speed s < 4"
    using that by (auto simp: tick_budget_def remaining_def)
  have r: "remaining ?sd = remaining s" by (simp add: remaining_def)
  from tick_progress_alone [OF std mvd] obtain s1 where
    t: "tick cfg willing ?sd = Inr s1" and tg: "target s1 = target ?sd"
    and ms: "m_speed s1 = m_speed ?sd" and st1: "steady cfg s1"
    and rr: "remaining ?sd \<le> remaining s1 + 1"
    and alt: "if moving s1 then tick_budget cfg s1 < tick_budget cfg ?sd
              else current s1 = target s1 \<and> remaining ?sd = 0"
    by blast
  from alt b r have "if moving s1 then k = 0 \<or> m_speed s < 4 \<longrightarrow> tick_budget cfg s1 < tick_budget cfg s
            else current s1 = target s1 \<and> remaining s = 0"
    by (cases "moving s1") auto
  with t tg ms st1 rr r show ?thesis by simp
qed

lemma ticks_append:
  "ticks cfg (xs @ ys) s =
     (case ticks cfg xs s of Inl e \<Rightarrow> Inl e | Inr s' \<Rightarrow> ticks cfg ys s')"
  by (induction xs arbitrary: s) (simp_all split: sum.splits)

lemma ticks_idle:
  "\<not> moving s \<Longrightarrow>
   \<exists>s'. ticks cfg slots s = Inr s' \<and> \<not> moving s' \<and> current s' = current s \<and> target s' = target s"
proof (induction slots arbitrary: s)
  case Nil
  then show ?case by simp
next
  case (Cons sl slots)
  let ?sd = "s\<lparr>counter := counter s + of_nat (foreign sl)\<rparr>"
  from Cons.prems have t: "tick cfg (emits sl) ?sd = Inr ?sd" by (simp add: tick_def)
  from Cons.prems have "\<not> moving ?sd" by simp
  from Cons.IH [OF this] t show ?case by simp
qed

lemma budget_positive: "moving s \<Longrightarrow> 0 < tick_budget cfg s"
  by (simp add: tick_budget_def)

lemma convergence_aux:
  "steady cfg s \<Longrightarrow> moving s \<Longrightarrow> tick_budget cfg s \<le> length slots \<Longrightarrow>
   \<forall>sl\<in>set slots. emits sl = willing \<and> (foreign sl = 0 \<or> m_speed s < 4) \<Longrightarrow>
   \<exists>s'. ticks cfg slots s = Inr s' \<and> \<not> moving s' \<and>
        current s' = target s \<and> target s' = target s"
proof (induction slots arbitrary: s)
  case Nil
  with budget_positive [of s cfg] show ?case by simp
next
  case (Cons sl slots)
  from Cons.prems(4) have em: "emits sl = willing" and fr: "foreign sl = 0 \<or> m_speed s < 4"
    and rest: "\<forall>sl\<in>set slots. emits sl = willing \<and> (foreign sl = 0 \<or> m_speed s < 4)"
    by simp_all
  from tick_progress [OF Cons.prems(1,2), of "foreign sl"] obtain s1 where
    t: "tick cfg willing (s\<lparr>counter := counter s + of_nat (foreign sl)\<rparr>) = Inr s1"
    and tg: "target s1 = target s" and ms: "m_speed s1 = m_speed s" and st1: "steady cfg s1"
    and alt: "if moving s1
              then foreign sl = 0 \<or> m_speed s < 4 \<longrightarrow> tick_budget cfg s1 < tick_budget cfg s
              else current s1 = target s1 \<and> remaining s = 0"
    by blast
  show ?case
  proof (cases "moving s1")
    case True
    with alt fr have "tick_budget cfg s1 < tick_budget cfg s" by simp
    with Cons.prems(3) have b: "tick_budget cfg s1 \<le> length slots" by simp
    from rest ms have "\<forall>sl\<in>set slots. emits sl = willing \<and> (foreign sl = 0 \<or> m_speed s1 < 4)"
      by simp
    from Cons.IH [OF st1 True b this] tg t em show ?thesis by simp
  next
    case False
    from ticks_idle [OF False, of cfg slots] obtain s' where
      "ticks cfg slots s1 = Inr s'" "\<not> moving s'" "current s' = current s1" "target s' = target s1"
      by blast
    with False alt tg t em show ?thesis by simp
  qed
qed

lemma not_before:
  "steady cfg s \<Longrightarrow> moving s \<Longrightarrow> length slots \<le> remaining s \<Longrightarrow>
   \<forall>sl\<in>set slots. emits sl = willing \<Longrightarrow>
   \<exists>s'. ticks cfg slots s = Inr s' \<and> moving s'"
proof (induction slots arbitrary: s)
  case Nil
  then show ?case by simp
next
  case (Cons sl slots)
  from Cons.prems(4) have em: "emits sl = willing"
    and rest: "\<forall>sl\<in>set slots. emits sl = willing" by simp_all
  from tick_progress [OF Cons.prems(1,2), of "foreign sl"] obtain s1 where
    t: "tick cfg willing (s\<lparr>counter := counter s + of_nat (foreign sl)\<rparr>) = Inr s1"
    and st1: "steady cfg s1"
    and r: "remaining s \<le> remaining s1 + 1"
    and alt: "if moving s1
              then foreign sl = 0 \<or> m_speed s < 4 \<longrightarrow> tick_budget cfg s1 < tick_budget cfg s
              else current s1 = target s1 \<and> remaining s = 0"
    by blast
  from alt Cons.prems(3) have mv1: "moving s1" by (cases "moving s1") simp_all
  from r Cons.prems(3) have "length slots \<le> remaining s1" by simp
  from Cons.IH [OF st1 mv1 this rest] t em show ?case by simp
qed

lemma budget_bound:
  assumes "steady cfg s"
  shows "tick_budget cfg s < (remaining s + 2) * (256 * (TIMER0_FREQ cfg div 2 + 1))"
proof -
  let ?K = "TIMER0_FREQ cfg div 2 + 1"
  let ?m1 = "if moving s then remaining s + 1 else 0"
  let ?m2 = "if m_speed s < 4 \<or> counter s = 0 then 0 else 256 - unat (counter s)"
  let ?m3 = "nat (int (TIMER0_FREQ cfg) div (2 * uint (m_set_speed s)) - 1 - uint (m_ovf_counter s))"
  from assms have v: "m_set_speed s \<noteq> 0" by (simp add: steady_def)
  have nn: "0 \<le> uint (m_ovf_counter s)" by (rule uint_nonnegative)
  have "nat (x - 1 - u) \<le> nat (x - 1 - uint (0::16 word))" if "0 \<le> u" for x u :: int
    using that by simp
  from this [OF nn]
  have "?m3 \<le> nat (int (TIMER0_FREQ cfg) div (2 * uint (m_set_speed s)) - 1 - uint (0::16 word))" .
  with fresh_wait [OF v, of "TIMER0_FREQ cfg"] have a: "?m3 < ?K" by linarith
  have "?m2 + 1 \<le> 256" using counter_weight_le [of "m_speed s < 4" "counter s"] by simp
  then have "(?m2 + 1) * ?K \<le> 256 * ?K" by (rule mult_le_mono1)
  moreover have "?m1 * (256 * ?K) \<le> (remaining s + 1) * (256 * ?K)"
    by (rule mult_le_mono1) simp
  ultimately have "?m1 * (256 * ?K) + (?m2 + 1) * ?K
      \<le> (remaining s + 1) * (256 * ?K) + 256 * ?K"
    by (intro add_mono)
  also have "\<dots> = (remaining s + 2) * (256 * ?K)"
    by (simp add: add_mult_distrib)
  finally have b: "?m1 * (256 * ?K) + (?m2 + 1) * ?K
      \<le> (remaining s + 2) * (256 * ?K) + 0 * ?K" by simp
  have "?m1 * (256 * ?K) + ?m2 * ?K + ?m3 < (remaining s + 2) * (256 * ?K) + 0 * ?K + 0"
    by (rule budget_less [OF a b])
  then show ?thesis by (simp add: tick_budget_def)
qed

subsection \<open>The start of a move and the examples\<close>

lemma start_fields:
  "moving (move (set_target_position cfg t s))"
  "target (move (set_target_position cfg t s)) = t"
  "current (move (set_target_position cfg t s)) = current s"
  "relative (move (set_target_position cfg t s)) = 0"
  "m_speed (move (set_target_position cfg t s)) = m_speed s"
  "m_set_speed (move (set_target_position cfg t s)) = m_set_speed s"
  "m_min_speed (move (set_target_position cfg t s)) = m_min_speed s"
  "m_max_speed (move (set_target_position cfg t s)) = m_max_speed s"
  by (cases "profile cfg"; simp add: move_def set_target_position_def Let_def)+

lemma lerp16_in_range:
  assumes "p \<le> d" and "d \<noteq> 0"
  shows "in_range lerp_config (lerp16 25 500 p d)"
proof -
  let ?x = "25 + 475 * unat p div unat d"
  from assms(1) have pd: "unat p \<le> unat d" by (simp add: word_le_nat_alt)
  from assms(2) have d0: "0 < unat d" by (simp add: unat_gt_0)
  from pd have "475 * unat p \<le> 475 * unat d" by simp
  then have "475 * unat p div unat d \<le> 475 * unat d div unat d" by (rule div_le_mono)
  with d0 have le: "?x \<le> 500" by simp
  have eq: "lerp16 25 500 p d = (of_nat ?x :: 16 word)" by (simp add: lerp16_def)
  from le have "?x < 65536" by simp
  then have u: "unat (of_nat ?x :: 16 word) = ?x"
    by (rule unat_of_nat16)
  have nz: "(of_nat ?x :: 16 word) \<noteq> 0"
  proof
    assume "(of_nat ?x :: 16 word) = 0"
    with u show False by simp
  qed
  from le u nz show ?thesis
    unfolding eq in_range_def by (simp add: lerp_config_def example_config_def)
qed

lemma crowded_axis_fields:
  "crowded_axis =
     \<lparr>moving = True, current = 0, target = 1, relative = 0, distance = 1,
      easein = 0, easeout = 0, m_speed = 4, m_set_speed = 25, m_min_speed = 25,
      m_max_speed = 500, m_ovf_counter = 0, m_invert_direction = False, counter = 0\<rparr>"
  by (simp add: crowded_axis_def move_def set_target_position_def rest_axis_def
      example_config_def Let_def)

lemma crowded_wait:
  "j + n \<le> 399 \<Longrightarrow>
   ticks example_config (replicate n alone) (crowded_axis\<lparr>counter := c, m_ovf_counter := of_nat j\<rparr>)
     = Inr (crowded_axis\<lparr>counter := c, m_ovf_counter := of_nat (j + n)\<rparr>)"
proof (induction n arbitrary: j)
  case 0
  then show ?case by simp
next
  case (Suc n)
  then have j: "j < 399" by simp
  then have "j < 65536" by simp
  then have "unat (of_nat j :: 16 word) = j" by (rule unat_of_nat16)
  then have u: "uint (of_nat j :: 16 word) = int j" by (simp add: uint_nat)
  let ?s = "crowded_axis\<lparr>counter := c, m_ovf_counter := of_nat j\<rparr>"
  have g: "moving ?s" "m_set_speed ?s \<noteq> 0" "\<not> gate1 example_config ?s"
    using j by (simp_all add: gate1_def u crowded_axis_fields example_config_def)
  have t: "tick example_config willing ?s
     = Inr (crowded_axis\<lparr>counter := c, m_ovf_counter := of_nat (Suc j)\<rparr>)"
    by (simp add: tick_blocked1 [OF g] add.commute)
  from Suc.prems have "Suc j + n \<le> 399" by simp
  from Suc.IH [OF this] t show ?case by (simp add: alone_def crowded_axis_fields)
qed

lemma crowded_round:
  assumes "unat (c::8 word) mod 2 = 0"
  shows "ticks example_config crowded_period (crowded_axis\<lparr>counter := c\<rparr>)
           = Inr (crowded_axis\<lparr>counter := c + 2\<rparr>)"
proof -
  have w: "ticks example_config (replicate 399 alone) (crowded_axis\<lparr>counter := c\<rparr>)
      = Inr (crowded_axis\<lparr>counter := c, m_ovf_counter := 399\<rparr>)"
    using crowded_wait [of 0 399 c] by (simp add: crowded_axis_fields)
  have "1 + c \<noteq> 0"
  proof
    assume "1 + c = 0"
    then have "c = - 1" by (simp add: eq_neg_iff_add_eq_0 add.commute)
    then have "unat c = 255" by (simp add: unsigned_minus_1_eq_mask mask_eq_exp_minus_1)
    with assms show False by simp
  qed
  then have "unat (1 + c) = Suc (unat c)" by (rule unatSuc)
  with assms have o: "unat (c + 1) mod 2 = 1" by (simp add: add.commute mod_Suc)
  let ?s = "crowded_axis\<lparr>m_ovf_counter := 399, counter := c + 1\<rparr>"
  have g: "moving ?s" "m_set_speed ?s \<noteq> 0" "2 \<le> m_speed ?s" "gate1 example_config ?s"
    "\<not> gate2 ?s"
    using o by (simp_all add: gate1_def gate2_def crowded_axis_fields example_config_def)
  have t: "tick example_config willing ?s = Inr (crowded_axis\<lparr>counter := c + 2\<rparr>)"
    unfolding tick_blocked2 [OF g] by (simp add: crowded_axis_fields add.assoc)
  show ?thesis
    unfolding crowded_period_def ticks_append w by (simp add: t)
qed

lemma crowded_forever:
  "ticks example_config (concat (replicate k crowded_period)) crowded_axis
     = Inr (crowded_axis\<lparr>counter := of_nat (2 * k)\<rparr>)"
proof (induction k)
  case 0
  then show ?case by (simp add: crowded_axis_fields)
next
  case (Suc k)
  have "replicate (Suc k) crowded_period = replicate k crowded_period @ [crowded_period]"
    by (simp add: replicate_append_same)
  then have c: "concat (replicate (Suc k) crowded_period)
      = concat (replicate k crowded_period) @ crowded_period"
    by (simp only: concat_append concat.simps append_Nil2)
  have u: "unat (of_nat (2 * k) :: 8 word) = 2 * k mod 256"
    by (simp only: unat_of_nat take_bit_eq_mod) simp
  have "2 * k mod 256 mod 2 = 0" by presburger
  then have e: "unat (of_nat (2 * k) :: 8 word) mod 2 = 0"
    by (simp only: u)
  have "(of_nat (2 * k) :: 8 word) + 2 = of_nat (2 * Suc k)" by simp
  with crowded_round [OF e] Suc.IH show ?case
    unfolding c ticks_append by simp
qed

subsection \<open>The arbiter\<close>

lemma decode_950: "decode 950 = NOTHING"
  by (simp add: decode_def button_values_def static_cast_action_def)

text \<open>
  The direction filters of \<^verbatim>\<open>part_000\<close>. Its raw direction states come from the decoded
  action alone, one action per sample, so they are never both set, and the two filters
  keep in step: on no poll that can be reached from power-on are both debounced direction
  states asserted.
\<close>

lemma succ_unat8:
  fixes c th :: "8 word"
  assumes "c < th"
  shows "unat (c + 1) = unat c + 1"
proof -
  from assms have "unat c < unat th" by (simp add: word_less_nat_alt)
  moreover have "unat th < 256" using unsigned_less [of th] by simp
  ultimately have "unat c + unat (1::8 word) < 2 ^ LENGTH(8)" by simp
  then have "unat (c + 1) = unat c + unat (1::8 word)" by (rule unat_add_lem [THEN iffD1])
  then show ?thesis by simp
qed

lemma succ_mono8:
  fixes a b th :: "8 word"
  assumes "a \<le> b" and "b < th"
  shows "a + 1 \<le> b + 1"
proof -
  from assms have "a < th" by simp
  then have "unat (a + 1) = unat a + 1" by (rule succ_unat8)
  moreover from assms(2) have "unat (b + 1) = unat b + 1" by (rule succ_unat8)
  moreover from assms(1) have "unat a \<le> unat b" by (simp add: word_le_nat_alt)
  ultimately show ?thesis by (simp add: word_le_nat_alt)
qed

lemma debounce_pair:
  assumes "\<not> (rf \<and> rb)" and "\<not> (p0 \<and> p1)" and "p0 \<longrightarrow> c1 \<le> c0" and "p1 \<longrightarrow> c0 \<le> c1"
    and "debounce rf p0 c0 th = (fs, p0', ft, c0')"
    and "debounce rb p1 c1 th = (bs, p1', bt, c1')"
  shows "\<not> (fs \<and> bs) \<and> \<not> (p0' \<and> p1') \<and> (p0' \<longrightarrow> c1' \<le> c0') \<and> (p1' \<longrightarrow> c0' \<le> c1')"
  using assms
  by (auto simp: debounce_def split: if_splits intro: succ_mono8)


lemma button_action_exclusive:
  "\<not> fwd_state l \<Longrightarrow> \<not> bwd_state l \<Longrightarrow>
   \<not> (fwd_state (button_action m a l) \<and> bwd_state (button_action m a l))"
  by (cases a) simp_all

lemma sample_part_000:
  assumes "sample_buttons_part_000 inp k = (l, k1)"
  shows "\<not> (fwd_state l \<and> bwd_state l) \<and>
         previous_state_0 k1 = previous_state_0 k \<and> previous_state_1 k1 = previous_state_1 k \<and>
         counter_0 k1 = counter_0 k \<and> counter_1 k1 = counter_1 k"
proof -
  let ?l0 = "\<lparr>fwd_state = False, bwd_state = False, switch_state = False,
               new_motor_speed = 0, act = decode_part_000 (adc inp),
               fwd_trigger = False, bwd_trigger = False, switch_trigger = False\<rparr>"
  from assms have l: "l = button_action (motor (ResKeybd_setup k)) (decode_part_000 (adc inp)) ?l0"
    and k1: "k1 = ResKeybd_setup k"
    by (auto simp: sample_buttons_part_000_def Let_def)
  have "\<not> (fwd_state l \<and> bwd_state l)"
    unfolding l by (rule button_action_exclusive) simp_all
  then show ?thesis by (simp add: k1 ResKeybd_setup_def)
qed

lemma debounced_part_000:
  assumes inv: "in_step k"
    and d: "debounce_buttons_part_000 kc (sample_buttons_part_000 inp k) = (l, k1)"
  shows "\<not> (fwd_state l \<and> bwd_state l) \<and> in_step k1"
proof -
  obtain l0 k0 where s: "sample_buttons_part_000 inp k = (l0, k0)" by (cases "sample_buttons_part_000 inp k")
  from sample_part_000 [OF s] have raw: "\<not> (fwd_state l0 \<and> bwd_state l0)"
    and same: "previous_state_0 k0 = previous_state_0 k" "previous_state_1 k0 = previous_state_1 k"
      "counter_0 k0 = counter_0 k" "counter_1 k0 = counter_1 k"
    by simp_all
  obtain fs p0 ft c0 where d0: "debounce (fwd_state l0) (previous_state_0 k0) (counter_0 k0)
      (UI_KAP_BUTTON_DEBOUNCE kc) = (fs, p0, ft, c0)"
    by (metis prod_cases4)
  obtain bs p1 bt c1 where d1: "debounce (bwd_state l0) (previous_state_1 k0) (counter_1 k0)
      (UI_KAP_BUTTON_DEBOUNCE kc) = (bs, p1, bt, c1)"
    by (metis prod_cases4)
  from inv same have pre: "\<not> (previous_state_0 k0 \<and> previous_state_1 k0)"
    "previous_state_0 k0 \<longrightarrow> counter_1 k0 \<le> counter_0 k0"
    "previous_state_1 k0 \<longrightarrow> counter_0 k0 \<le> counter_1 k0"
    by (simp_all add: in_step_def)
  from debounce_pair [OF raw pre d0 d1]
  have post: "\<not> (fs \<and> bs)" "\<not> (p0 \<and> p1)" "p0 \<longrightarrow> c1 \<le> c0" "p1 \<longrightarrow> c0 \<le> c1"
    by simp_all
  from d s d0 d1 have "fwd_state l = fs" "bwd_state l = bs"
    "previous_state_0 k1 = p0" "previous_state_1 k1 = p1" "counter_0 k1 = c0" "counter_1 k1 = c1"
    by (auto simp: debounce_buttons_part_000_def split: prod.splits)
  with post show ?thesis by (simp add: in_step_def)
qed

lemma arbitrate_part_000_filters:
  assumes "arbitrate_part_000 kc (l, k) e = (k', e')"
  shows "previous_state_0 k' = previous_state_0 k \<and> previous_state_1 k' = previous_state_1 k \<and>
         counter_0 k' = counter_0 k \<and> counter_1 k' = counter_1 k"
  using assms by (auto simp: arbitrate_part_000_def Let_def split: if_splits)

lemma tick_part_000_in_step:
  assumes "in_step k" and "ResKeybd_tick_part_000 kc inp (k, e) = (k', e')"
  shows "in_step k'"
proof -
  obtain l k1 where d: "debounce_buttons_part_000 kc (sample_buttons_part_000 inp k) = (l, k1)"
    by (cases "debounce_buttons_part_000 kc (sample_buttons_part_000 inp k)")
  from debounced_part_000 [OF assms(1) d] have "in_step k1" by simp
  moreover from assms(2) d have "arbitrate_part_000 kc (l, k1) e = (k', e')"
    by (simp add: ResKeybd_tick_part_000_def)
  from arbitrate_part_000_filters [OF this]
  have "previous_state_0 k' = previous_state_0 k1" "previous_state_1 k' = previous_state_1 k1"
    "counter_0 k' = counter_0 k1" "counter_1 k' = counter_1 k1" by simp_all
  ultimately show ?thesis by (simp add: in_step_def)
qed

lemma reachable_in_step: "reachable_part_000 kc k \<Longrightarrow> in_step k"
proof (induction rule: reachable_part_000.induct)
  case start
  show ?case by (simp add: in_step_def power_on_def)
next
  case (poll k inp e k' e')
  then show ?case by (simp add: tick_part_000_in_step)
qed

lemma part_000_exclusive:
  assumes "reachable_part_000 kc k"
    and "debounce_buttons_part_000 kc (sample_buttons_part_000 inp k) = (l, k1)"
  shows "\<not> (fwd_state l \<and> bwd_state l)"
  using debounced_part_000 [OF reachable_in_step [OF assms(1)] assms(2)] by simp

section \<open>Command API properties\<close>

text \<open>
  C6. \<^verbatim>\<open>halt()\<close> is idempotent: from every state, two calls in a row give the state one
  call gives, and after any call the target is the current position and the axis is not
  moving.
\<close>

theorem halt_idempotent:
  "halt (halt s) = halt s \<and> target (halt s) = current (halt s) \<and> moving (halt s) = False"
  by (simp add: halt_def)

text \<open>
  C2. \<^verbatim>\<open>set_target_position(t)\<close> makes \<open>t\<close> the target, resets \<open>relative\<close> to 0 and sets
  \<open>distance\<close> to the absolute difference of the current position and \<open>t\<close>. When the
  distance is at least \<^verbatim>\<open>ACCEL_MIN_STEPS\<close> under the trapezoid or smoothstep profile: below
  twice \<^verbatim>\<open>ACCEL_DURATION\<close> both ease points are half the distance (integer halving),
  otherwise \<open>easein\<close> is \<^verbatim>\<open>ACCEL_DURATION\<close> and \<open>easeout\<close> is the distance less \<^verbatim>\<open>ACCEL_DURATION\<close>.
  With \<^verbatim>\<open>ACCEL_DURATION\<close> 250 the distances 300 and 600 give 150, 150 and 250, 350.
\<close>

theorem set_target_position_plan:
  fixes cfg t s
  defines "s' \<equiv> set_target_position cfg t s"
  shows "target s' = t \<and> relative s' = 0 \<and>
    uint (distance s') = \<bar>uint (current s) - uint t\<bar> \<and>
    (ACCEL_MIN_STEPS cfg \<le> unat (distance s') \<and>
     (profile cfg = USE_TRAPEZOID_ACCEL \<or> profile cfg = USE_SMOOTHSTEP_ACCEL) \<longrightarrow>
       (if unat (distance s') < 2 * ACCEL_DURATION cfg
        then unat (easein s') = unat (distance s') div 2 \<and> easeout s' = easein s'
        else easein s' = of_nat (ACCEL_DURATION cfg) \<and>
             easeout s' = distance s' - of_nat (ACCEL_DURATION cfg) \<and>
             unat (easein s') = ACCEL_DURATION cfg \<and>
             unat (easeout s') = unat (distance s') - ACCEL_DURATION cfg)) \<and>
    (ACCEL_DURATION cfg = 250 \<and> ACCEL_MIN_STEPS cfg \<le> 300 \<and> unat (distance s') = 300 \<and>
     (profile cfg = USE_TRAPEZOID_ACCEL \<or> profile cfg = USE_SMOOTHSTEP_ACCEL) \<longrightarrow>
       unat (easein s') = 150 \<and> unat (easeout s') = 150) \<and>
    (ACCEL_DURATION cfg = 250 \<and> ACCEL_MIN_STEPS cfg \<le> 600 \<and> unat (distance s') = 600 \<and>
     (profile cfg = USE_TRAPEZOID_ACCEL \<or> profile cfg = USE_SMOOTHSTEP_ACCEL) \<longrightarrow>
       unat (easein s') = 250 \<and> unat (easeout s') = 350)"
proof -
  let ?d = "if current s > t then current s - t else t - current s"
  have d: "distance s' = ?d"
    by (simp add: s'_def set_target_position_def Let_def split: accel.split)
  have tr: "target s' = t \<and> relative s' = 0"
    by (simp add: s'_def set_target_position_def Let_def split: accel.split)
  have ud: "uint (distance s') = \<bar>uint (current s) - uint t\<bar>"
    unfolding d by (rule uint_abs_diff)
  have plan: "if unat (distance s') < 2 * ACCEL_DURATION cfg
        then unat (easein s') = unat (distance s') div 2 \<and> easeout s' = easein s'
        else easein s' = of_nat (ACCEL_DURATION cfg) \<and>
             easeout s' = distance s' - of_nat (ACCEL_DURATION cfg) \<and>
             unat (easein s') = ACCEL_DURATION cfg \<and>
             unat (easeout s') = unat (distance s') - ACCEL_DURATION cfg"
    if big: "ACCEL_MIN_STEPS cfg \<le> unat (distance s')"
      and prof: "profile cfg = USE_TRAPEZOID_ACCEL \<or> profile cfg = USE_SMOOTHSTEP_ACCEL"
  proof (cases "unat (distance s') < 2 * ACCEL_DURATION cfg")
    case True
    with big prof d show ?thesis
      by (auto simp: s'_def set_target_position_def Let_def unat_half)
  next
    case False
    then have le: "ACCEL_DURATION cfg \<le> unat (distance s')" by simp
    have "unat (distance s') < 2 ^ 32" using unsigned_less [of "distance s'"] by simp
    with le have small: "ACCEL_DURATION cfg < 2 ^ 32" by simp
    then have ua: "unat (of_nat (ACCEL_DURATION cfg) :: 32 word) = ACCEL_DURATION cfg"
      by (simp add: of_nat_inverse)
    then have "(of_nat (ACCEL_DURATION cfg) :: 32 word) \<le> distance s'"
      using le by (simp add: word_le_nat_alt)
    then have "unat (distance s' - of_nat (ACCEL_DURATION cfg))
        = unat (distance s') - ACCEL_DURATION cfg"
      using ua by (simp add: unat_sub)
    moreover have "easein s' = of_nat (ACCEL_DURATION cfg) \<and>
             easeout s' = distance s' - of_nat (ACCEL_DURATION cfg)"
      using big prof False d by (auto simp: s'_def set_target_position_def Let_def)
    ultimately show ?thesis using False ua by simp
  qed
  have plan_nat: "unat (easein s')
        = (if unat (distance s') < 2 * ACCEL_DURATION cfg then unat (distance s') div 2
           else ACCEL_DURATION cfg) \<and>
      unat (easeout s')
        = (if unat (distance s') < 2 * ACCEL_DURATION cfg then unat (distance s') div 2
           else unat (distance s') - ACCEL_DURATION cfg)"
    if "ACCEL_MIN_STEPS cfg \<le> unat (distance s')"
      and "profile cfg = USE_TRAPEZOID_ACCEL \<or> profile cfg = USE_SMOOTHSTEP_ACCEL"
    using plan [OF that] by (auto split: if_splits)
  have p300: "unat (easein s') = 150 \<and> unat (easeout s') = 150"
    if "ACCEL_DURATION cfg = 250" "ACCEL_MIN_STEPS cfg \<le> 300" "unat (distance s') = 300"
      "profile cfg = USE_TRAPEZOID_ACCEL \<or> profile cfg = USE_SMOOTHSTEP_ACCEL"
    using plan_nat that by simp
  have p600: "unat (easein s') = 250 \<and> unat (easeout s') = 350"
    if "ACCEL_DURATION cfg = 250" "ACCEL_MIN_STEPS cfg \<le> 600" "unat (distance s') = 600"
      "profile cfg = USE_TRAPEZOID_ACCEL \<or> profile cfg = USE_SMOOTHSTEP_ACCEL"
    using plan_nat that by simp
  from tr ud plan p300 p600 show ?thesis by blast
qed

theorem set_target_position_plan_witness:
  "ACCEL_MIN_STEPS example_config
     \<le> unat (distance (set_target_position example_config 300 rest_axis)) \<and>
   ACCEL_MIN_STEPS example_config
     \<le> unat (distance (set_target_position example_config 600 rest_axis)) \<and>
   profile example_config = USE_TRAPEZOID_ACCEL \<and> ACCEL_DURATION example_config = 250 \<and>
   distance (set_target_position example_config 300 rest_axis) = 300 \<and>
   unat (easein (set_target_position example_config 300 rest_axis)) = 150 \<and>
   unat (easeout (set_target_position example_config 300 rest_axis)) = 150 \<and>
   distance (set_target_position example_config 600 rest_axis) = 600 \<and>
   unat (easein (set_target_position example_config 600 rest_axis)) = 250 \<and>
   unat (easeout (set_target_position example_config 600 rest_axis)) = 350"
proof -
  have d: "distance (set_target_position example_config 300 rest_axis) = 300"
    "distance (set_target_position example_config 600 rest_axis) = 600"
    by (simp_all add: set_target_position_def example_config_def rest_axis_def Let_def)
  have c: "ACCEL_MIN_STEPS example_config = 10" "ACCEL_DURATION example_config = 250"
    "profile example_config = USE_TRAPEZOID_ACCEL"
    by (simp_all add: example_config_def)
  from set_target_position_plan [of example_config 300 rest_axis]
    set_target_position_plan [of example_config 600 rest_axis]
  show ?thesis by (simp add: d c)
qed

text \<open>
  C10. When the new distance is below \<^verbatim>\<open>ACCEL_MIN_STEPS\<close>, \<^verbatim>\<open>set_target_position\<close> writes
  \<open>target\<close>, \<open>relative\<close> and \<open>distance\<close> and nothing else: \<open>easein\<close> and \<open>easeout\<close> keep the values
  of the previous move, so an \<open>easeout\<close> above the new distance stays above it. The
  example is a move of 600 steps followed by a target 5 steps away: \<open>easeout\<close> is still
  350.
\<close>

theorem set_target_position_short_move_frame:
  assumes "unat (if current s > t then current s - t else t - current s) < ACCEL_MIN_STEPS cfg"
  shows "set_target_position cfg t s =
           s\<lparr>target := t, relative := 0,
             distance := (if current s > t then current s - t else t - current s)\<rparr> \<and>
         easein (set_target_position cfg t s) = easein s \<and>
         easeout (set_target_position cfg t s) = easeout s \<and>
         (distance (set_target_position cfg t s) < easeout s \<longrightarrow>
            distance (set_target_position cfg t s) < easeout (set_target_position cfg t s))"
  using assms by (cases "t < current s") (simp_all add: set_target_position_def Let_def)

theorem set_target_position_short_move_frame_witness:
  "unat (if current (set_target_position example_config 600 rest_axis) > 5
         then current (set_target_position example_config 600 rest_axis) - 5
         else 5 - current (set_target_position example_config 600 rest_axis))
     < ACCEL_MIN_STEPS example_config \<and>
   easeout (set_target_position example_config 600 rest_axis) = 350 \<and>
   distance (set_target_position example_config 5
      (set_target_position example_config 600 rest_axis)) = 5 \<and>
   easein (set_target_position example_config 5
      (set_target_position example_config 600 rest_axis)) = 250 \<and>
   easeout (set_target_position example_config 5
      (set_target_position example_config 600 rest_axis)) = 350 \<and>
   distance (set_target_position example_config 5
      (set_target_position example_config 600 rest_axis))
     < easeout (set_target_position example_config 5
      (set_target_position example_config 600 rest_axis))"
proof -
  let ?s = "set_target_position example_config 600 rest_axis"
  have c: "current ?s = 0" "easeout ?s = 350" "easein ?s = 250"
    by (simp_all add: set_target_position_def example_config_def rest_axis_def Let_def)
  have m: "ACCEL_MIN_STEPS example_config = 10" by (simp add: example_config_def)
  have h: "unat (if current ?s > 5 then current ?s - 5 else 5 - current ?s)
      < ACCEL_MIN_STEPS example_config"
    by (simp add: c m)
  from set_target_position_short_move_frame [OF h] show ?thesis
    by (simp add: c m)
qed

section \<open>Acceleration planner\<close>

text \<open>
  C3. For a move whose distance is below \<^verbatim>\<open>ACCEL_MIN_STEPS\<close>, \<^verbatim>\<open>update_freq\<close> sets \<open>m_set_speed\<close>
  to \<open>m_min_speed\<close>, and so does every step of the move: whatever the emitter answers,
  however many ticks have run, whatever the other steppers have done to the static
  counter in between and whatever value \<open>c\<close> it has on this tick, a tick that moves
  \<open>current\<close> leaves \<open>m_set_speed\<close> at \<open>m_min_speed\<close>.
\<close>

theorem short_move_min_speed:
  assumes "unat (distance s) < ACCEL_MIN_STEPS cfg"
  shows "m_set_speed (update_freq cfg s) = m_min_speed s \<and>
         (\<forall>slots em c s1 s2. ticks cfg slots s = Inr s1 \<and>
              tick cfg em (s1\<lparr>counter := c\<rparr>) = Inr s2 \<and>
              current s2 \<noteq> current s1 \<longrightarrow> m_set_speed s2 = m_min_speed s)"
proof -
  have "m_set_speed (update_freq cfg s) = m_min_speed s"
    using assms by (simp add: update_freq_def)
  moreover have "m_set_speed s2 = m_min_speed s"
    if "ticks cfg slots s = Inr s1" "tick cfg em (s1\<lparr>counter := c\<rparr>) = Inr s2"
      "current s2 \<noteq> current s1"
    for slots em c s1 s2
  proof -
    from that(1) have "distance s1 = distance s" "m_min_speed s1 = m_min_speed s"
      by (simp_all add: ticks_keep_profile)
    with that(2,3) assms show ?thesis
      using tick_step_short [of cfg em "s1\<lparr>counter := c\<rparr>" s2] by simp
  qed
  ultimately show ?thesis by blast
qed

theorem short_move_min_speed_witness:
  "unat (distance short_axis) < ACCEL_MIN_STEPS example_config \<and>
   m_set_speed short_axis = 500 \<and> m_min_speed short_axis = 25 \<and>
   m_set_speed (update_freq example_config short_axis) = 25 \<and>
   (\<exists>s2. tick example_config willing short_axis = Inr s2 \<and>
      current s2 \<noteq> current short_axis \<and> m_set_speed s2 = 25)"
proof -
  have h: "unat (distance short_axis) < ACCEL_MIN_STEPS example_config"
    by (simp add: short_axis_def rest_axis_def example_config_def)
  have v: "m_set_speed short_axis = 500" "m_min_speed short_axis = 25"
    by (simp_all add: short_axis_def rest_axis_def)
  have g: "moving short_axis" "m_set_speed short_axis \<noteq> 0" "2 \<le> m_speed short_axis"
    "gate1 example_config short_axis" "gate2 short_axis"
    by (simp_all add: gate1_def gate2_def short_axis_def rest_axis_def example_config_def)
  have a: "target short_axis \<noteq> current short_axis" "asked willing short_axis"
    "target short_axis > current short_axis"
    by (simp_all add: asked_def willing_def short_axis_def rest_axis_def)
  define s2 where "s2 = update_position example_config 1
      (short_axis\<lparr>m_ovf_counter := 0, counter := counter short_axis + 1\<rparr>)"
  have t: "tick example_config willing short_axis = Inr s2"
    using a by (simp add: tick_open [OF g] s2_def Let_def)
  have c: "current s2 \<noteq> current short_axis"
    by (simp add: s2_def update_position_fields)
  from short_move_min_speed [OF h]
  have u: "m_set_speed (update_freq example_config short_axis) = m_min_speed short_axis"
    and "\<forall>slots em c s1 s2. ticks example_config slots short_axis = Inr s1 \<and>
           tick example_config em (s1\<lparr>counter := c\<rparr>) = Inr s2 \<and> current s2 \<noteq> current s1
           \<longrightarrow> m_set_speed s2 = m_min_speed short_axis"
    by blast+
  then have "ticks example_config [] short_axis = Inr short_axis \<and>
           tick example_config willing (short_axis\<lparr>counter := counter short_axis\<rparr>) = Inr s2 \<and>
           current s2 \<noteq> current short_axis
           \<longrightarrow> m_set_speed s2 = m_min_speed short_axis"
    by blast
  with t c have "m_set_speed s2 = m_min_speed short_axis" by simp
  with h v u t c show ?thesis by simp
qed

section \<open>Step scheduler\<close>

text \<open>
  C1, as amended. Target convergence with an emitter that never refuses. Take any axis
  state \<open>s0\<close> and any target \<open>t\<close>, and start the move as the API does
  (\<^verbatim>\<open>set_target_position(t)\<close>, then \<^verbatim>\<open>move()\<close>). Assume that the gates can always divide: the
  speed divider is at least 2, \<open>m_set_speed\<close> and \<open>m_min_speed\<close> are in the range of the first
  gate, and so is every speed the interpolation yields for a ramp position \<open>p\<close> out of
  \<open>d\<close> with \<open>p \<le> d\<close> and \<open>d \<noteq> 0\<close> (for the smoothstep profile: with distinct edges and a
  position within the distance); \<^verbatim>\<open>ACCEL_DURATION\<close> is not 0 and \<^verbatim>\<open>ACCEL_MIN_STEPS\<close> is at least 2,
  which keeps the planner within these positions. Then every run of at least
  \<open>tick_budget\<close> ticks on which no other stepper has advanced the static counter of
  \<^verbatim>\<open>tick()\<close>, or any such run at all when the speed divider is below 4, ends with
  \<open>current = target = t\<close> and \<open>moving\<close> false. The budget is below
  \<open>(distance + 2) * 256 * (TIMER0_FREQ div 2 + 1)\<close>, where \<open>distance\<close> is the field the move
  starts with, the initial \<open>|current - target|\<close>. After any run of at most \<open>distance\<close> ticks
  the axis is still moving.
\<close>

theorem target_convergence:
  assumes "2 \<le> m_speed s0"
    and "in_range cfg (m_set_speed s0)" and "in_range cfg (m_min_speed s0)"
    and "\<forall>p d. p \<le> d \<and> d \<noteq> 0 \<longrightarrow>
           in_range cfg (ramp cfg (m_min_speed s0) (m_max_speed s0) p d)"
    and "\<forall>ein eout dist rel. ein \<noteq> 0 \<and> eout < dist \<and> rel \<le> dist \<longrightarrow>
           in_range cfg (smooth cfg (m_min_speed s0) (m_max_speed s0) ein eout dist rel)"
    and "0 < ACCEL_DURATION cfg" and "ACCEL_DURATION cfg < 2 ^ 32"
    and "2 \<le> ACCEL_MIN_STEPS cfg"
    and "s = move (set_target_position cfg t s0)"
  shows "(\<forall>slots. tick_budget cfg s \<le> length slots \<and>
            (\<forall>sl\<in>set slots. emits sl = willing \<and> (foreign sl = 0 \<or> m_speed s0 < 4)) \<longrightarrow>
            (\<exists>s'. ticks cfg slots s = Inr s' \<and>
                  current s' = t \<and> target s' = t \<and> \<not> moving s')) \<and>
         (\<forall>slots. length slots \<le> unat (distance s) \<and> (\<forall>sl\<in>set slots. emits sl = willing) \<longrightarrow>
            (\<exists>s'. ticks cfg slots s = Inr s' \<and> moving s')) \<and>
         unat (distance s) = remaining s \<and>
         distance s = (if current s0 > t then current s0 - t else t - current s0) \<and>
         tick_budget cfg s < (unat (distance s) + 2) * (256 * (TIMER0_FREQ cfg div 2 + 1))"
proof -
  note f = start_fields [of cfg t s0, folded assms(9)]
  have pl: "planned cfg s" unfolding assms(9) by (rule planned_start)
  then have r: "unat (distance s) = remaining s" by (simp add: planned_def f)
  have d: "distance s = (if current s0 > t then current s0 - t else t - current s0)"
    unfolding assms(9) by (cases "profile cfg"; simp add: move_def set_target_position_def Let_def)
  from assms(2) have "TIMER0_FREQ cfg < 65536" by (simp add: in_range_def)
  then have "TIMER0_FREQ cfg div 2 \<le> 65536" by linarith
  with assms(1-8) pl have st: "steady cfg s" by (simp add: steady_def in_range_def f)
  have a: "\<exists>s'. ticks cfg slots s = Inr s' \<and> current s' = t \<and> target s' = t \<and> \<not> moving s'"
    if "tick_budget cfg s \<le> length slots"
      "\<forall>sl\<in>set slots. emits sl = willing \<and> (foreign sl = 0 \<or> m_speed s0 < 4)" for slots
  proof -
    from that(2) have "\<forall>sl\<in>set slots. emits sl = willing \<and> (foreign sl = 0 \<or> m_speed s < 4)"
      by (simp add: f)
    from convergence_aux [OF st f(1) that(1) this] show ?thesis by (auto simp: f)
  qed
  have b: "\<exists>s'. ticks cfg slots s = Inr s' \<and> moving s'"
    if "length slots \<le> unat (distance s)" "\<forall>sl\<in>set slots. emits sl = willing" for slots
    using not_before [OF st f(1) _ that(2)] that(1) by (simp add: r)
  from budget_bound [OF st] have c:
    "tick_budget cfg s < (unat (distance s) + 2) * (256 * (TIMER0_FREQ cfg div 2 + 1))"
    by (simp only: r)
  from a b r d c show ?thesis by blast
qed

theorem target_convergence_witness:
  "2 \<le> m_speed rest_axis \<and>
   in_range lerp_config (m_set_speed rest_axis) \<and>
   in_range lerp_config (m_min_speed rest_axis) \<and>
   in_range lerp_config (ramp lerp_config (m_min_speed rest_axis) (m_max_speed rest_axis) 1 250) \<and>
   ACCEL_MIN_STEPS lerp_config \<le>
     unat (distance (move (set_target_position lerp_config 12 rest_axis))) \<and>
   m_set_speed (update_position lerp_config 1
     (move (set_target_position lerp_config 12 rest_axis))) = 26 \<and>
   unat (distance (move (set_target_position lerp_config 12 rest_axis))) = 12 \<and>
   tick_budget lerp_config (move (set_target_position lerp_config 12 rest_axis)) = 33283727 \<and>
   (\<exists>s'. ticks lerp_config
           (replicate (tick_budget lerp_config
              (move (set_target_position lerp_config 12 rest_axis))) alone)
           (move (set_target_position lerp_config 12 rest_axis)) = Inr s' \<and>
      current s' = 12 \<and> target s' = 12 \<and> \<not> moving s') \<and>
   (\<exists>s'. ticks lerp_config
           (replicate (tick_budget lerp_config
              (move (set_target_position lerp_config 12 rest_axis)))
              \<lparr>emits = willing, foreign = 1\<rparr>)
           (move (set_target_position lerp_config 12 rest_axis)) = Inr s' \<and>
      current s' = 12 \<and> target s' = 12 \<and> \<not> moving s') \<and>
   (\<exists>s'. ticks lerp_config (replicate 12 alone)
           (move (set_target_position lerp_config 12 rest_axis)) = Inr s' \<and> moving s')"
proof -
  let ?s = "move (set_target_position lerp_config 12 rest_axis)"
  let ?n = "tick_budget lerp_config ?s"
  have v: "m_min_speed rest_axis = 25" "m_max_speed rest_axis = 500" "m_speed rest_axis = 2"
    "m_set_speed rest_axis = 25"
    by (simp_all add: rest_axis_def)
  have h1: "2 \<le> m_speed rest_axis" "m_speed rest_axis < 4" by (simp_all add: v)
  have h2: "in_range lerp_config (m_set_speed rest_axis)"
    "in_range lerp_config (m_min_speed rest_axis)"
    by (simp_all add: v in_range_def lerp_config_def example_config_def)
  have rm: "ramp lerp_config = lerp16" by (simp add: lerp_config_def)
  have h4: "\<forall>p d. p \<le> d \<and> d \<noteq> 0 \<longrightarrow>
           in_range lerp_config (ramp lerp_config (m_min_speed rest_axis) (m_max_speed rest_axis) p d)"
    unfolding v rm using lerp16_in_range by blast
  then have h4': "in_range lerp_config
      (ramp lerp_config (m_min_speed rest_axis) (m_max_speed rest_axis) 1 250)"
    by simp
  have h5: "\<forall>ein eout dist rel. ein \<noteq> 0 \<and> eout < dist \<and> rel \<le> dist \<longrightarrow>
           in_range lerp_config
             (smooth lerp_config (m_min_speed rest_axis) (m_max_speed rest_axis) ein eout dist rel)"
    by (simp add: v in_range_def lerp_config_def example_config_def)
  have h6: "0 < ACCEL_DURATION lerp_config" "ACCEL_DURATION lerp_config < 2 ^ 32"
    "2 \<le> ACCEL_MIN_STEPS lerp_config"
    by (simp_all add: lerp_config_def example_config_def)
  have e: "?s = rest_axis\<lparr>moving := True, target := 12, distance := 12, easein := 6, easeout := 6\<rparr>"
    by (simp add: move_def set_target_position_def rest_axis_def lerp_config_def
        example_config_def Let_def drop_bit_eq_div)
  have d: "unat (distance ?s) = 12" "ACCEL_MIN_STEPS lerp_config \<le> unat (distance ?s)"
    unfolding e by (simp_all add: lerp_config_def example_config_def)
  have sp: "m_set_speed (update_position lerp_config 1 ?s) = 26"
    unfolding e
    by (simp add: update_position_def update_freq_def Let_def rest_axis_def lerp_config_def
        example_config_def lerp16_def)
  have bd: "?n = 33283727"
    unfolding e
    by (simp add: tick_budget_def remaining_def rest_axis_def lerp_config_def example_config_def)
  note conv = target_convergence [OF h1(1) h2 h4 h5 h6 refl, of 12]
  from conv have a: "\<forall>slots. ?n \<le> length slots \<and>
            (\<forall>sl\<in>set slots. emits sl = willing \<and> (foreign sl = 0 \<or> m_speed rest_axis < 4)) \<longrightarrow>
            (\<exists>s'. ticks lerp_config slots ?s = Inr s' \<and>
                  current s' = 12 \<and> target s' = 12 \<and> \<not> moving s')"
    by blast
  from conv have b: "\<forall>slots. length slots \<le> unat (distance ?s) \<and>
            (\<forall>sl\<in>set slots. emits sl = willing) \<longrightarrow>
            (\<exists>s'. ticks lerp_config slots ?s = Inr s' \<and> moving s')"
    by blast
  have l1: "?n \<le> length (replicate ?n alone) \<and>
      (\<forall>sl\<in>set (replicate ?n alone).
          emits sl = willing \<and> (foreign sl = 0 \<or> m_speed rest_axis < 4))"
    by (simp add: alone_def)
  have l2: "?n \<le> length (replicate ?n \<lparr>emits = willing, foreign = 1\<rparr>) \<and>
      (\<forall>sl\<in>set (replicate ?n \<lparr>emits = willing, foreign = 1\<rparr>).
          emits sl = willing \<and> (foreign sl = 0 \<or> m_speed rest_axis < 4))"
    using h1(2) by simp
  have l3: "length (replicate 12 alone) \<le> unat (distance ?s) \<and>
      (\<forall>sl\<in>set (replicate 12 alone). emits sl = willing)"
    by (simp add: d alone_def)
  from a l1 have a1: "\<exists>s'. ticks lerp_config (replicate ?n alone) ?s = Inr s' \<and>
      current s' = 12 \<and> target s' = 12 \<and> \<not> moving s'"
    by blast
  from a l2 have a2: "\<exists>s'. ticks lerp_config (replicate ?n \<lparr>emits = willing, foreign = 1\<rparr>) ?s
      = Inr s' \<and> current s' = 12 \<and> target s' = 12 \<and> \<not> moving s'"
    by blast
  from b l3 have b1: "\<exists>s'. ticks lerp_config (replicate 12 alone) ?s = Inr s' \<and> moving s'"
    by blast
  from h1(1) h2 h4' d sp bd a1 a2 b1 show ?thesis by blast
qed

text \<open>
  C1, as stated, fails: \<open>distance\<close> ticks are never enough. A move just started with one
  step to go has not moved after one tick (the first gate is closed), and even when the
  first tick steps, the axis is at its target but still \<open>moving\<close>: \<^verbatim>\<open>halt()\<close> runs on a later
  tick that passes both gates. And no number of ticks is enough for an axis with a speed
  divider of 4 while another stepper advances the static counter once per period before
  the axis reads it: the counter is odd every time the axis passes the first gate, the
  second gate stays closed, and after any number of periods the axis has not made its
  one step.
\<close>

theorem target_convergence_counterexample:
  "remaining (move (set_target_position example_config 1 rest_axis)) = 1 \<and>
   ticks example_config [alone] (move (set_target_position example_config 1 rest_axis))
     = Inr (move (set_target_position example_config 1 rest_axis)\<lparr>m_ovf_counter := 1\<rparr>) \<and>
   current (move (set_target_position example_config 1 rest_axis)\<lparr>m_ovf_counter := 1\<rparr>) = 0 \<and>
   target (move (set_target_position example_config 1 rest_axis)\<lparr>m_ovf_counter := 1\<rparr>) = 1 \<and>
   remaining one_step_axis = 1 \<and>
   ticks example_config [alone] one_step_axis
     = Inr (one_step_axis\<lparr>m_ovf_counter := 0, counter := 1, current := 1, relative := 1\<rparr>) \<and>
   moving (one_step_axis\<lparr>m_ovf_counter := 0, counter := 1, current := 1, relative := 1\<rparr>) \<and>
   (\<forall>k. ticks example_config (concat (replicate k crowded_period)) crowded_axis
          = Inr (crowded_axis\<lparr>counter := of_nat (2 * k)\<rparr>)) \<and>
   moving crowded_axis \<and> current crowded_axis = 0 \<and> target crowded_axis = 1 \<and>
   m_speed crowded_axis = 4"
proof -
  have a: "remaining (move (set_target_position example_config 1 rest_axis)) = 1 \<and>
   ticks example_config [alone] (move (set_target_position example_config 1 rest_axis))
     = Inr (move (set_target_position example_config 1 rest_axis)\<lparr>m_ovf_counter := 1\<rparr>) \<and>
   current (move (set_target_position example_config 1 rest_axis)\<lparr>m_ovf_counter := 1\<rparr>) = 0 \<and>
   target (move (set_target_position example_config 1 rest_axis)\<lparr>m_ovf_counter := 1\<rparr>) = 1 \<and>
   remaining one_step_axis = 1 \<and>
   ticks example_config [alone] one_step_axis
     = Inr (one_step_axis\<lparr>m_ovf_counter := 0, counter := 1, current := 1, relative := 1\<rparr>) \<and>
   moving (one_step_axis\<lparr>m_ovf_counter := 0, counter := 1, current := 1, relative := 1\<rparr>)"
    by (simp add: remaining_def tick_def Let_def move_def set_target_position_def
      update_position_def update_freq_def one_step_axis_def rest_axis_def example_config_def
      willing_def alone_def)
  have b: "\<forall>k. ticks example_config (concat (replicate k crowded_period)) crowded_axis
          = Inr (crowded_axis\<lparr>counter := of_nat (2 * k)\<rparr>)"
    using crowded_forever by blast
  have c: "moving crowded_axis \<and> current crowded_axis = 0 \<and> target crowded_axis = 1 \<and>
      m_speed crowded_axis = 4"
    by (simp add: crowded_axis_fields)
  from a b c show ?thesis by blast
qed

text \<open>
  C4. The two-tier gating of a tick of a moving axis (speed divider at least 2,
  \<open>m_set_speed\<close> in the range of the first gate). The first gate is open exactly when the
  overflow counter, read before its increment, has reached \<^verbatim>\<open>TIMER0_FREQ / (2 * m_set_speed) - 1\<close>; the counter is then
  reset to 0, otherwise incremented. The second counter is incremented exactly on the
  ticks that pass the first gate, and the second gate is open when its value before the
  increment is a multiple of \<open>m_speed div 2\<close> (which is what \<^verbatim>\<open>m_speed >> 1\<close> computes). A
  tick that finds a gate closed changes nothing but these counters; a tick that finds both
  open halts the axis at its target or moves \<open>current\<close> when the emitter answers.
\<close>

theorem tick_two_tier_gating:
  assumes "moving s" and "in_range cfg (m_set_speed s)" and "2 \<le> m_speed s"
  shows "\<exists>s'. tick cfg em s = Inr s' \<and>
     m_ovf_counter s' = (if gate1 cfg s then 0 else m_ovf_counter s + 1) \<and>
     counter s' = (if gate1 cfg s then counter s + 1 else counter s) \<and>
     unat (drop_bit 1 (m_speed s)) = unat (m_speed s) div 2 \<and>
     (\<not> (gate1 cfg s \<and> gate2 s) \<longrightarrow>
        s' = s\<lparr>m_ovf_counter := m_ovf_counter s', counter := counter s'\<rparr>) \<and>
     (gate1 cfg s \<and> gate2 s \<and> target s = current s \<longrightarrow> \<not> moving s') \<and>
     (gate1 cfg s \<and> gate2 s \<and> target s \<noteq> current s \<and> asked em s \<longrightarrow>
        current s' \<noteq> current s)"
proof -
  from assms(2) have v: "m_set_speed s \<noteq> 0" by (simp add: in_range_def)
  note mv = assms(1) and sp = assms(3)
  show ?thesis
  proof (cases "gate1 cfg s")
    case False
    with mv v show ?thesis by (simp add: tick_blocked1 unat_half16)
  next
    case g1: True
    show ?thesis
    proof (cases "gate2 s")
      case False
      with g1 mv v sp show ?thesis by (simp add: tick_blocked2 unat_half16)
    next
      case True
      with g1 mv v sp show ?thesis
        by (simp add: tick_open Let_def halt_def update_position_fields unat_half16)
    qed
  qed
qed

theorem tick_two_tier_gating_witness:
  "moving due_axis \<and> in_range example_config (m_set_speed due_axis) \<and> 2 \<le> m_speed due_axis \<and>
   gate1 example_config due_axis \<and> gate2 due_axis \<and>
   \<not> gate1 example_config (due_axis\<lparr>m_ovf_counter := 398\<rparr>) \<and>
   target due_axis \<noteq> current due_axis \<and> asked willing due_axis \<and>
   (\<exists>s'. tick example_config willing due_axis = Inr s' \<and> m_ovf_counter s' = 0 \<and>
      counter s' = 1 \<and> current s' \<noteq> current due_axis)"
proof -
  have h: "moving due_axis" "in_range example_config (m_set_speed due_axis)"
    "2 \<le> m_speed due_axis"
    by (simp_all add: in_range_def due_axis_def rest_axis_def example_config_def)
  have g: "gate1 example_config due_axis" "gate2 due_axis"
    "\<not> gate1 example_config (due_axis\<lparr>m_ovf_counter := 398\<rparr>)"
    "target due_axis \<noteq> current due_axis" "asked willing due_axis"
    "counter due_axis = 0"
    by (simp_all add: gate1_def gate2_def asked_def willing_def due_axis_def rest_axis_def
        example_config_def)
  from tick_two_tier_gating [OF h, of willing] g h show ?thesis
    by auto
qed

text \<open>
  C5. On a tick that passes both gates with the axis away from its target: when the
  emitter method asked declines, the tick changes the two scheduler counters and no
  field of the motion state (\<open>current\<close>, \<open>relative\<close>, \<open>m_set_speed\<close>, \<open>target\<close>, \<open>moving\<close> are as
  before), and the same emitter method is asked on the next such tick; when it confirms,
  \<open>current\<close> moves by exactly one towards the target, \<open>relative\<close> grows by one and
  \<open>m_set_speed\<close> is what \<^verbatim>\<open>update_freq\<close> computes for the new \<open>relative\<close>.
\<close>

theorem refused_pulse_atomic:
  assumes "moving s" and "in_range cfg (m_set_speed s)" and "2 \<le> m_speed s"
    and "gate1 cfg s" and "gate2 s" and "target s \<noteq> current s"
  shows "(\<not> asked em s \<longrightarrow>
           (\<exists>s'. tick cfg em s = Inr s' \<and>
              s' = s\<lparr>m_ovf_counter := 0, counter := counter s + 1\<rparr> \<and>
              current s' = current s \<and> relative s' = relative s \<and>
              m_set_speed s' = m_set_speed s \<and> target s' = target s \<and> moving s' \<and>
              asked em s' = asked em s)) \<and>
         (asked em s \<longrightarrow>
           (\<exists>s'. tick cfg em s = Inr s' \<and>
              current s' = (if target s > current s then current s + 1 else current s - 1) \<and>
              relative s' = relative s + 1 \<and>
              m_set_speed s' = m_set_speed (update_freq cfg (s\<lparr>relative := relative s + 1\<rparr>))))"
proof -
  from assms(2) have v: "m_set_speed s \<noteq> 0" by (simp add: in_range_def)
  note opened = tick_open [OF assms(1) v assms(3,4,5), of em]
  from assms(1,6) show ?thesis
    by (simp add: opened Let_def asked_def update_position_fields update_position_speed)
qed

theorem refused_pulse_atomic_witness:
  "moving due_axis \<and> in_range example_config (m_set_speed due_axis) \<and> 2 \<le> m_speed due_axis \<and>
   gate1 example_config due_axis \<and> gate2 due_axis \<and> target due_axis \<noteq> current due_axis \<and>
   \<not> asked \<lparr>step_cw = True, step_ccw = False\<rparr> due_axis \<and> asked willing due_axis \<and>
   tick example_config \<lparr>step_cw = True, step_ccw = False\<rparr> due_axis
     = Inr (due_axis\<lparr>m_ovf_counter := 0, counter := 1\<rparr>) \<and>
   (\<exists>s'. tick example_config willing due_axis = Inr s' \<and> current s' = 1 \<and> relative s' = 1 \<and>
      m_set_speed s' = 25)"
proof -
  have h: "moving due_axis" "in_range example_config (m_set_speed due_axis)"
    "2 \<le> m_speed due_axis"
    "gate1 example_config due_axis" "gate2 due_axis" "target due_axis \<noteq> current due_axis"
    by (simp_all add: in_range_def gate1_def gate2_def due_axis_def rest_axis_def
        example_config_def)
  have a: "\<not> asked \<lparr>step_cw = True, step_ccw = False\<rparr> due_axis" "asked willing due_axis"
    by (simp_all add: asked_def willing_def due_axis_def rest_axis_def)
  have v: "current due_axis = 0" "target due_axis = 10" "relative due_axis = 0"
    "counter due_axis = 0"
    "m_set_speed (update_freq example_config (due_axis\<lparr>relative := relative due_axis + 1\<rparr>)) = 25"
    by (simp_all add: update_freq_def due_axis_def rest_axis_def example_config_def)
  from refused_pulse_atomic [OF h, of "\<lparr>step_cw = True, step_ccw = False\<rparr>"]
    refused_pulse_atomic [OF h, of willing] h a v
  show ?thesis by auto
qed

section \<open>Input arbitration\<close>

text \<open>
  C7, as amended. The debounce filter, started with \<open>previous_state\<close> false and the
  counter at 0. Raw value false for \<open>threshold - 1\<close> samples and then true for one sample
  gives no trigger, leaves \<open>previous_state\<close> false, and every sample reports false.
  \<open>threshold\<close> consecutive true samples are all suppressed: they report the previous
  stable value, false, and fire nothing. The trigger fires on sample \<open>threshold + 1\<close>,
  once, and flips \<open>previous_state\<close> to true.
\<close>

theorem debounce_threshold:
  "(0 < th \<longrightarrow>
      feed th (replicate (unat th - 1) False @ [True]) (False, 0)
        = (replicate (unat th) (False, False), (False, 1))) \<and>
   feed th (replicate (unat th) True) (False, 0)
     = (replicate (unat th) (False, False), (False, th)) \<and>
   feed th (replicate (unat th + 1) True) (False, 0)
     = (replicate (unat th) (False, False) @ [(True, True)], (True, 0))"
proof -
  have held: "feed th (replicate (unat th) True) (False, 0)
      = (replicate (unat th) (False, False), (False, th))"
    using feed_held [of 0 "unat th" th] by simp
  have one: "feed th (replicate (unat th - 1) False @ [True]) (False, 0)
        = (replicate (unat th) (False, False), (False, 1))" if "0 < th"
  proof -
    from that have "0 < unat th" by (simp add: word_less_nat_alt)
    then have r: "replicate (unat th) (False, False)
        = replicate (unat th - 1) (False, False) @ [(False, False)]"
      by (metis Suc_pred' replicate_Suc replicate_append_same)
    show ?thesis
      using that by (simp add: feed_append feed_quiet debounce_suppress r)
  qed
  have "replicate (unat th + 1) True = replicate (unat th) True @ [True]"
    by (simp add: replicate_append_same)
  then have fire: "feed th (replicate (unat th + 1) True) (False, 0)
     = (replicate (unat th) (False, False) @ [(True, True)], (True, 0))"
    by (simp only: feed_append held) (simp add: debounce_accept)
  from one held fire show ?thesis by blast
qed

theorem debounce_threshold_witness:
  "(0::8 word) < 3 \<and>
   feed 3 (replicate (unat (3::8 word) - 1) False @ [True]) (False, 0)
     = (replicate (unat (3::8 word)) (False, False), (False, 1)) \<and>
   feed 3 (replicate (unat (3::8 word) + 1) True) (False, 0)
     = (replicate (unat (3::8 word)) (False, False) @ [(True, True)], (True, 0))"
  using debounce_threshold [of 3] by simp

text \<open>
  C7, as stated, fails: with a threshold of 3, three consecutive true samples leave the
  filter untriggered, \<open>previous_state\<close> false and the counter at 3.
\<close>

theorem debounce_threshold_counterexample:
  "feed 3 [True, True, True] (False, 0)
     = ([(False, False), (False, False), (False, False)], (False, 3))"
  by (simp add: debounce_def)

text \<open>
  C8 does not hold of the poll cycle of \<^verbatim>\<open>src/ardufocus/ui_reskeybd.cpp\<close>: with both debounced
  direction states asserted it issues \<^verbatim>\<open>motor_stop\<close>, and a moving axis stops. The guard
  that the source comments with \<^emph>\<open>Check that we not moving in both directions at the same
  time\<close> tests the triggers, not the states, and the stop branch under it runs on every
  poll on which no trigger is set. From power-on, three polls that read the feedback pins
  \<^verbatim>\<open>LOW\<close>, as \<^verbatim>\<open>setup()\<close> leaves them, with no button pressed latch both direction filters and
  set both feedback pins. On the fourth poll, which reads the pins \<^verbatim>\<open>HIGH\<close>, both debounced
  states are asserted and no trigger is set: the poll issues \<^verbatim>\<open>motor_stop\<close> and the speed
  restore, and the axis the host had started is no longer moving. The same branch stops
  a move of the host on the first poll after power-on. The poll cycle of \<^verbatim>\<open>part_000\<close>, whose
  stop is conditional on a trigger, issues nothing on that poll.
\<close>

theorem direction_mutual_exclusion_violated:
  "fst (ResKeybd_tick example_kconfig leds_low_sample
          (ResKeybd_tick example_kconfig leds_low_sample
            (ResKeybd_tick example_kconfig leds_low_sample (power_on, idle_engine)))) = both_latched \<and>
   fwd_state (fst (debounce_buttons example_kconfig
             (sample_buttons leds_high_sample both_latched))) \<and>
   bwd_state (fst (debounce_buttons example_kconfig
             (sample_buttons leds_high_sample both_latched))) \<and>
   fwd_trigger (fst (debounce_buttons example_kconfig
             (sample_buttons leds_high_sample both_latched))) = False \<and>
   bwd_trigger (fst (debounce_buttons example_kconfig
             (sample_buttons leds_high_sample both_latched))) = False \<and>
   moving (axis busy_engine MOTOR_ONE) \<and>
   calls_since busy_engine
     (snd (ResKeybd_tick example_kconfig leds_high_sample (both_latched, busy_engine)))
     = [Motor_stop MOTOR_ONE, Motor_set_speed MOTOR_ONE 0] \<and>
   moving (axis (snd (ResKeybd_tick example_kconfig leds_high_sample
        (both_latched, busy_engine))) MOTOR_ONE) = False \<and>
   calls_since busy_engine
     (snd (ResKeybd_tick example_kconfig leds_low_sample (power_on, busy_engine)))
     = [Motor_stop MOTOR_ONE, Motor_set_speed MOTOR_ONE 0] \<and>
   calls_since busy_engine
     (snd (ResKeybd_tick_part_000 example_kconfig leds_low_sample (power_on, busy_engine)))
     = []"
proof -
  have run: "fst (ResKeybd_tick example_kconfig leds_low_sample
          (ResKeybd_tick example_kconfig leds_low_sample
            (ResKeybd_tick example_kconfig leds_low_sample (power_on, idle_engine)))) = both_latched"
    by (simp add: ResKeybd_tick_def feedback_def arbitrate_def debounce_buttons_def
      sample_buttons_def ResKeybd_setup_def debounce_def decode_950 power_on_def
      idle_engine_def leds_low_sample_def example_kconfig_def both_latched_def Let_def
      motor_stop_def motor_set_speed_def motor_is_moving_def is_moving_def)
  have cycle: "fwd_state (fst (debounce_buttons example_kconfig
             (sample_buttons leds_high_sample both_latched))) \<and>
   bwd_state (fst (debounce_buttons example_kconfig
             (sample_buttons leds_high_sample both_latched))) \<and>
   fwd_trigger (fst (debounce_buttons example_kconfig
             (sample_buttons leds_high_sample both_latched))) = False \<and>
   bwd_trigger (fst (debounce_buttons example_kconfig
             (sample_buttons leds_high_sample both_latched))) = False \<and>
   moving (axis busy_engine MOTOR_ONE) \<and>
   calls_since busy_engine
     (snd (ResKeybd_tick example_kconfig leds_high_sample (both_latched, busy_engine)))
     = [Motor_stop MOTOR_ONE, Motor_set_speed MOTOR_ONE 0] \<and>
   moving (axis (snd (ResKeybd_tick example_kconfig leds_high_sample
        (both_latched, busy_engine))) MOTOR_ONE) = False"
    by (simp add: ResKeybd_tick_def feedback_def arbitrate_def debounce_buttons_def
      sample_buttons_def ResKeybd_setup_def debounce_def decode_950 power_on_def
      busy_engine_def leds_high_sample_def example_kconfig_def both_latched_def Let_def
      motor_stop_def motor_set_speed_def motor_is_moving_def is_moving_def calls_since_def
      halt_def set_speed_def rest_axis_def)
  have first: "calls_since busy_engine
     (snd (ResKeybd_tick example_kconfig leds_low_sample (power_on, busy_engine)))
     = [Motor_stop MOTOR_ONE, Motor_set_speed MOTOR_ONE 0]"
    by (simp add: ResKeybd_tick_def feedback_def arbitrate_def debounce_buttons_def
      sample_buttons_def ResKeybd_setup_def debounce_def decode_950 power_on_def
      busy_engine_def leds_low_sample_def example_kconfig_def Let_def
      motor_stop_def motor_set_speed_def motor_is_moving_def is_moving_def calls_since_def
      halt_def set_speed_def rest_axis_def)
  have other: "calls_since busy_engine
     (snd (ResKeybd_tick_part_000 example_kconfig leds_low_sample (power_on, busy_engine)))
     = []"
    by (simp add: ResKeybd_tick_part_000_def arbitrate_part_000_def
      debounce_buttons_part_000_def sample_buttons_part_000_def ResKeybd_setup_def debounce_def
      decode_part_000_def button_values_part_000_def static_cast_action_def power_on_def
      busy_engine_def leds_low_sample_def example_kconfig_def Let_def calls_since_def)
  from run cycle first other show ?thesis by (simp only: simp_thms)
qed

text \<open>
  C9. \<^verbatim>\<open>decode\<close> returns the action of the first triple, in table order, whose closed
  interval holds the sample, and \<open>NOTHING\<close> when no interval holds it. With the table of
  \<^verbatim>\<open>part_000\<close>, 850 decodes to \<open>MOTOR_SWITCH\<close>, 950 and 5 to \<open>NOTHING\<close>.
\<close>

theorem decode_first_match:
  "(k < length (triples button_values_part_000) \<and>
    inside (triples button_values_part_000 ! k) v \<and>
    (\<forall>j<k. \<not> inside (triples button_values_part_000 ! j) v)
      \<longrightarrow> decode_part_000 v = snd (snd (triples button_values_part_000 ! k))) \<and>
   ((\<forall>k<length (triples button_values_part_000).
        \<not> inside (triples button_values_part_000 ! k) v)
      \<longrightarrow> decode_part_000 v = NOTHING) \<and>
   triples button_values_part_000 =
     [(900, 990, NOTHING), (800, 899, MOTOR_SWITCH), (690, 799, FAST_FWD),
      (400, 500, ULTRA_FWD), (111, 210, FAST_BWD), (30, 110, ULTRA_BWD),
      (600, 689, SLOWEST_FWD), (330, 399, SLOW_FWD), (501, 600, SLOWEST_BWD),
      (211, 350, SLOW_BWD)] \<and>
   decode_part_000 850 = MOTOR_SWITCH \<and> decode_part_000 950 = NOTHING \<and>
   decode_part_000 5 = NOTHING"
proof -
  have "decode_part_000 850 = MOTOR_SWITCH" "decode_part_000 950 = NOTHING"
    "decode_part_000 5 = NOTHING"
    by (simp_all add: decode_part_000_def button_values_part_000_def static_cast_action_def)
  then show ?thesis
    using decode_scan_first [of k button_values_part_000 v]
      decode_scan_none [of button_values_part_000 v] triples_part_000
    unfolding decode_part_000_def by blast
qed

theorem decode_first_match_witness:
  "(1::nat) < length (triples button_values_part_000) \<and>
   inside (triples button_values_part_000 ! 1) 850 \<and>
   \<not> inside (triples button_values_part_000 ! 0) 850 \<and>
   decode_part_000 850 = snd (snd (triples button_values_part_000 ! 1)) \<and>
   snd (snd (triples button_values_part_000 ! 1)) = MOTOR_SWITCH \<and>
   list_all (\<lambda>e. \<not> inside e 5) (triples button_values_part_000) \<and>
   decode_part_000 5 = NOTHING"
proof -
  have a: "(1::nat) < length (triples button_values_part_000)"
    "inside (triples button_values_part_000 ! 1) 850"
    "\<not> inside (triples button_values_part_000 ! 0) 850"
    "snd (snd (triples button_values_part_000 ! 1)) = MOTOR_SWITCH"
    by (simp_all add: triples_part_000 inside_def)
  then have a': "\<forall>j<1. \<not> inside (triples button_values_part_000 ! j) 850" by simp
  have b: "list_all (\<lambda>e. \<not> inside e 5) (triples button_values_part_000)"
    by (simp add: triples_part_000 inside_def)
  then have b': "\<forall>k<length (triples button_values_part_000).
        \<not> inside (triples button_values_part_000 ! k) 5"
    by (simp add: list_all_length)
  from decode_first_match [of 1 850] decode_first_match [of 0 5] a a' b b'
  show ?thesis by blast
qed

end
